theory Spec2Isabelle
  imports Main "HOL-Library.AList" "HOL-Library.Word"
begin

unbundle bit_operations_syntax

section \<open>Numbers rendered as text\<close>

text \<open>
  The decimal text of a whole number, which is what \<^verbatim>\<open>BigInt.prototype.toString()\<close>
  gives: decimal digits, most significant first, with a leading minus sign for a negative
  value.
\<close>

definition digit_char :: "nat \<Rightarrow> char" where
  "digit_char d = ''0123456789'' ! d"

fun digits_of :: "nat \<Rightarrow> string" where
  "digits_of n = (if n < 10 then [digit_char n] else digits_of (n div 10) @ [digit_char (n mod 10)])"

declare digits_of.simps [simp del]

definition String_of_int :: "int \<Rightarrow> string" where
  "String_of_int i = (if i < 0 then CHR ''-'' # digits_of (nat (- i)) else digits_of (nat i))"

section \<open>Numbers of JavaScript\<close>

text \<open>
  A Number is a double. The ones met here hold whole numbers, so a finite Number is
  given by the integer it holds; the sign of zero is not kept (no operation below tells the
  two zeros apart). An integer below \<open>2\<^sup>5\<^sup>3\<close> is a double; a larger one is
  rounded to 53 significant bits, to the nearest double and to the even one of two that are
  equally near, and a result of \<open>2\<^sup>1\<^sup>0\<^sup>2\<^sup>4\<close> or more is infinite.
\<close>

fun bit_length :: "nat \<Rightarrow> nat" where
  "bit_length n = (if n = 0 then 0 else Suc (bit_length (n div 2)))"

declare bit_length.simps [simp del]

definition nearest_double :: "nat \<Rightarrow> nat" where
  "nearest_double a =
     (let e = bit_length a - 53; q = a div 2 ^ e; r = a mod 2 ^ e
      in if 2 ^ e < 2 * r \<or> (2 * r = 2 ^ e \<and> odd q) then (q + 1) * 2 ^ e else q * 2 ^ e)"

datatype number = Finite int | Infinity | MinusInfinity | NaN

definition number_of_int :: "int \<Rightarrow> number" where
  \<comment> \<open>the Number nearest to an integer\<close>
  "number_of_int x =
     (let m = int (nearest_double (nat \<bar>x\<bar>))
      in if 2 ^ 1024 \<le> m then (if x < 0 then MinusInfinity else Infinity)
         else Finite (if x < 0 then - m else m))"

fun number_plus :: "number \<Rightarrow> number \<Rightarrow> number" where
  "number_plus (Finite a) (Finite b) = number_of_int (a + b)"
| "number_plus NaN y = NaN"
| "number_plus x NaN = NaN"
| "number_plus Infinity MinusInfinity = NaN"
| "number_plus MinusInfinity Infinity = NaN"
| "number_plus Infinity y = Infinity"
| "number_plus MinusInfinity y = MinusInfinity"
| "number_plus (Finite a) y = y"

fun number_negate :: "number \<Rightarrow> number" where
  "number_negate (Finite a) = Finite (- a)"
| "number_negate Infinity = MinusInfinity"
| "number_negate MinusInfinity = Infinity"
| "number_negate NaN = NaN"

definition number_minus :: "number \<Rightarrow> number \<Rightarrow> number" where
  "number_minus x y = number_plus x (number_negate y)"

fun number_sign :: "number \<Rightarrow> int" where
  "number_sign (Finite a) = sgn a"
| "number_sign Infinity = 1"
| "number_sign MinusInfinity = - 1"
| "number_sign NaN = 0"

fun number_times :: "number \<Rightarrow> number \<Rightarrow> number" where
  "number_times (Finite a) (Finite b) = number_of_int (a * b)"
| "number_times NaN y = NaN"
| "number_times x NaN = NaN"
| "number_times x y =
     (let s = number_sign x * number_sign y
      in if s = 0 then NaN else if 0 < s then Infinity else MinusInfinity)"

text \<open>
  \<^verbatim>\<open>String(x)\<close> and template interpolation of a Number: the digits of the shortest
  decimal that reads back as the same double, the nearest to it if there are several,
  filled up with zeros; from \<open>10\<^sup>2\<^sup>1\<close> on, in exponent notation. \<open>shortest_from k a\<close>
  looks for that decimal among those with \<open>k\<close> significant digits or more: with \<open>k\<close>
  digits only the two decimals around \<open>a\<close> can read back as \<open>a\<close>.
\<close>

function shortest_from :: "nat \<Rightarrow> nat \<Rightarrow> nat" where
  "shortest_from k a =
     (let n = length (digits_of a); g = 10 ^ (n - k); lo = a div g * g; hi = lo + g
      in if n \<le> k then a
         else if nearest_double lo = a
                 \<and> (nearest_double hi \<noteq> a \<or> a - lo < hi - a \<or> (a - lo = hi - a \<and> even (a div g)))
              then lo
         else if nearest_double hi = a then hi
         else shortest_from (Suc k) a)"
  by pat_completeness auto
termination
  by (relation "measure (\<lambda>(k, a). length (digits_of a) - k)") auto

declare shortest_from.simps [simp del]

definition exponent_form :: "nat \<Rightarrow> string" where
  "exponent_form v =
     (let ds = digits_of v; s = rev (dropWhile (\<lambda>c. c = CHR ''0'') (rev ds))
      in (if length s = 1 then s else hd s # CHR ''.'' # tl s) @ ''e+'' @ digits_of (length ds - 1))"

definition Number_toString :: "nat \<Rightarrow> string" where
  "Number_toString a =
     (let v = shortest_from 1 a
      in if v < 10 ^ 21 then digits_of v else exponent_form v)"

definition String_of_number :: "number \<Rightarrow> string" where
  "String_of_number x =
     (case x of
        NaN \<Rightarrow> ''NaN''
      | Infinity \<Rightarrow> ''Infinity''
      | MinusInfinity \<Rightarrow> ''-Infinity''
      | Finite v \<Rightarrow> if v < 0 then CHR ''-'' # Number_toString (nat (- v)) else Number_toString (nat v))"

section \<open>The host: paths, file system, logger\<close>

text \<open>
  Text is a \<^typ>\<open>string\<close>: the bytes of its UTF-8 encoding, which is also what the
  files hold. Paths are POSIX paths. \<^verbatim>\<open>path.join\<close> puts a separator between
  its arguments; an argument \<^verbatim>\<open>..\<close> removes the last component collected so far.
\<close>

definition path_dirname :: "string \<Rightarrow> string" where
  "path_dirname p = rev (drop 1 (dropWhile (\<lambda>c. c \<noteq> CHR ''/'') (rev p)))"

definition path_basename :: "string \<Rightarrow> string" where
  "path_basename p = rev (takeWhile (\<lambda>c. c \<noteq> CHR ''/'') (rev p))"

definition join2 :: "string \<Rightarrow> string \<Rightarrow> string" where
  "join2 a b = (if b = ''..'' then path_dirname a else a @ ''/'' @ b)"

definition path_join :: "string list \<Rightarrow> string" where
  "path_join ps = (case ps of [] \<Rightarrow> ''.'' | p # qs \<Rightarrow> foldl join2 p qs)"

text \<open>The directories \<^verbatim>\<open>mkdir -p\<close> walks through: every prefix of the path that
  ends before a separator, and the path itself.\<close>

fun path_prefixes_from :: "string \<Rightarrow> string \<Rightarrow> string list" where
  "path_prefixes_from acc [] = (if acc = [] then [] else [acc])"
| "path_prefixes_from acc (c # cs) =
     (if c = CHR ''/'' \<and> acc \<noteq> [] then acc # path_prefixes_from (acc @ [c]) cs
      else path_prefixes_from (acc @ [c]) cs)"

definition path_prefixes :: "string \<Rightarrow> string list" where
  "path_prefixes p = path_prefixes_from [] p"

datatype LogLevel = Info | Warn | Error | Debug

datatype json = JNumber int | JString string | JStrings "string list" | JNull

datatype error =
    InvalidAddress
  | GenesisNotFound string
  | GethInitFailed string
  | FsError string string
  | SpawnError string string
  | SyntaxError
  | TypeError

text \<open>The configuration the service remembers per index, and the events it emits.\<close>

record CachedConfig =
  c_minerThreads :: int
  c_cacheMB :: int
  c_etherbase :: "string option"

datatype emitted =
    MinerStateRunning int "nat option" string CachedConfig
  | MinerStateStopped int

record ChildProcess =
  pid :: "nat option"
  exitCode :: "int option"

text \<open>
  The host the supervisor runs on. \<open>homedir\<close>, \<open>platform\<close>, \<open>isPackaged\<close>,
  \<open>resourcesPath\<close>, \<open>appPath\<close> and \<open>dirname\<close> are what \<^verbatim>\<open>os\<close>,
  \<^verbatim>\<open>process\<close>, \<^verbatim>\<open>app\<close> and \<^verbatim>\<open>__dirname\<close> answer. The file system is
  the list of directories, the files with their text, and the modes set by
  \<^verbatim>\<open>chmod\<close>. \<open>logDir\<close> is the logger's module variable. \<open>log_line\<close> is
  the line \<^verbatim>\<open>JSON.stringify\<close> builds from the clock, the level, the message and
  the metadata of a logging call. \<open>pid_of_spawn n\<close> is the process id the host gives
  the \<open>n\<close>-th child (none when the spawn fails); \<open>spawned\<close> lists the commands
  spawned, \<open>terminated\<close> the children that were sent a termination signal (with the
  forced kill scheduled five seconds later), \<open>emitted\<close> the events of the service.
\<close>

record world =
  homedir :: string
  platform :: string
  isPackaged :: bool
  resourcesPath :: "string option"
  appPath :: string
  dirname :: string
  dirs :: "string list"
  files :: "(string \<times> string) list"
  modes :: "(string \<times> nat) list"
  logDir :: "string option"
  log_line :: "LogLevel \<Rightarrow> string \<Rightarrow> (string \<times> json) list \<Rightarrow> string"
  pid_of_spawn :: "nat \<Rightarrow> nat option"
  spawned :: "(string \<times> string list) list"
  terminated :: "ChildProcess list"
  emitted :: "emitted list"

subsection \<open>fs\<close>

definition existsSync :: "string \<Rightarrow> world \<Rightarrow> bool" where
  "existsSync p w = (p \<in> set (dirs w) \<or> p \<in> fst ` set (files w))"

definition mkdirSync :: "string \<Rightarrow> world \<Rightarrow> error + world" where
  \<comment> \<open>with \<^verbatim>\<open>{ recursive: true }\<close>: refused when a component is a file\<close>
  "mkdirSync p w =
     (if \<exists>q \<in> set (path_prefixes p). q \<in> fst ` set (files w) then Inl (FsError ''ENOTDIR'' p)
      else Inr (w\<lparr>dirs := dirs w @ filter (\<lambda>q. q \<notin> set (dirs w)) (path_prefixes p)\<rparr>))"

definition writeFileSync :: "string \<Rightarrow> string \<Rightarrow> world \<Rightarrow> error + world" where
  "writeFileSync p data w =
     (if p \<in> set (dirs w) then Inl (FsError ''EISDIR'' p)
      else if path_dirname p \<notin> set (dirs w) then Inl (FsError ''ENOENT'' p)
      else Inr (w\<lparr>files := AList.update p data (files w)\<rparr>))"

definition appendFileSync :: "string \<Rightarrow> string \<Rightarrow> world \<Rightarrow> error + world" where
  "appendFileSync p data w =
     (if p \<in> set (dirs w) then Inl (FsError ''EISDIR'' p)
      else if path_dirname p \<notin> set (dirs w) then Inl (FsError ''ENOENT'' p)
      else Inr (w\<lparr>files := AList.update p
               ((case map_of (files w) p of None \<Rightarrow> [] | Some old \<Rightarrow> old) @ data) (files w)\<rparr>))"

definition readFileSync :: "string \<Rightarrow> world \<Rightarrow> error + string" where
  "readFileSync p w =
     (case map_of (files w) p of
        Some text \<Rightarrow> Inr text
      | None \<Rightarrow> if p \<in> set (dirs w) then Inl (FsError ''EISDIR'' p) else Inl (FsError ''ENOENT'' p))"

definition readdirSync :: "string \<Rightarrow> world \<Rightarrow> error + string list" where
  \<comment> \<open>the entries in the order the host lists them\<close>
  "readdirSync d w =
     (if d \<in> set (dirs w)
      then Inr (map path_basename (filter (\<lambda>p. path_dirname p = d \<and> p \<noteq> d) (map fst (files w) @ dirs w)))
      else if d \<in> fst ` set (files w) then Inl (FsError ''ENOTDIR'' d)
      else Inl (FsError ''ENOENT'' d))"

definition unlinkSync :: "string \<Rightarrow> world \<Rightarrow> error + world" where
  "unlinkSync p w =
     (if p \<in> fst ` set (files w)
      then Inr (w\<lparr>files := AList.delete p (files w), modes := AList.delete p (modes w)\<rparr>)
      else if p \<in> set (dirs w) then Inl (FsError ''EPERM'' p)
      else Inl (FsError ''ENOENT'' p))"

definition chmodSync :: "string \<Rightarrow> nat \<Rightarrow> world \<Rightarrow> error + world" where
  "chmodSync p m w =
     (if existsSync p w then Inr (w\<lparr>modes := AList.update p m (modes w)\<rparr>)
      else Inl (FsError ''ENOENT'' p))"

subsection \<open>utils/paths.ts\<close>

definition getMarsCreditDir :: "world \<Rightarrow> string" where
  "getMarsCreditDir w = path_join [homedir w, ''.marscredit'']"

definition getBinDir :: "world \<Rightarrow> string" where
  "getBinDir w = path_join [getMarsCreditDir w, ''bin'']"

definition getGethBinaryPath :: "world \<Rightarrow> string" where
  "getGethBinaryPath w =
     path_join [getBinDir w, if platform w = ''win32'' then ''geth.exe'' else ''geth'']"

definition getMinerDataDir :: "int \<Rightarrow> world \<Rightarrow> string" where
  "getMinerDataDir minerIndex w =
     path_join [getMarsCreditDir w, ''miners'', String_of_number (Finite minerIndex)]"

definition getMinerKeystoreDir :: "int \<Rightarrow> world \<Rightarrow> string" where
  "getMinerKeystoreDir minerIndex w = path_join [getMinerDataDir minerIndex w, ''keystore'']"

definition getMinerLogsDir :: "int \<Rightarrow> world \<Rightarrow> string" where
  "getMinerLogsDir minerIndex w = path_join [getMinerDataDir minerIndex w, ''logs'']"

definition getMinerPidPath :: "int \<Rightarrow> world \<Rightarrow> string" where
  "getMinerPidPath minerIndex w = path_join [getMinerDataDir minerIndex w, ''geth.pid'']"

definition getWalletEncPath :: "world \<Rightarrow> string" where
  "getWalletEncPath w = path_join [getMarsCreditDir w, ''wallet.enc'']"

definition getLogsDir :: "world \<Rightarrow> string" where
  "getLogsDir w = path_join [getMarsCreditDir w, ''logs'']"

subsection \<open>utils/logger.ts\<close>

text \<open>
  A result is paired with the world the call leaves behind: an exception does not undo
  what was written before it was thrown.
\<close>

definition ensureLogDir :: "world \<Rightarrow> (error + string) \<times> world" where
  "ensureLogDir w =
     (case logDir w of
        Some d \<Rightarrow> (Inr d, w)
      | None \<Rightarrow>
          let d = getLogsDir w; w1 = w\<lparr>logDir := Some d\<rparr>
          in if \<not> existsSync d w1
             then (case mkdirSync d w1 of Inl e \<Rightarrow> (Inl e, w1) | Inr w2 \<Rightarrow> (Inr d, w2))
             else (Inr d, w1))"

definition log :: "LogLevel \<Rightarrow> string \<Rightarrow> (string \<times> json) list \<Rightarrow> world \<Rightarrow> (error + unit) \<times> world" where
  \<comment> \<open>a failed append is ignored; the echo to the console is outside the world\<close>
  "log level message meta w =
     (let line = log_line w level message meta
      in case ensureLogDir w of
           (Inl e, w1) \<Rightarrow> (Inl e, w1)
         | (Inr dir, w1) \<Rightarrow>
             (case appendFileSync (path_join [dir, ''app.log'']) line w1 of
                Inl _ \<Rightarrow> (Inr (), w1)
              | Inr w2 \<Rightarrow> (Inr (), w2)))"

section \<open>GenesisInit.ts\<close>

text \<open>
  \<^verbatim>\<open>execSync\<close> runs a command of the host; what the command does to the file
  system is the host's business, so it is a parameter: the command line and the world
  give the error of a failed run (its message and the captured output), or the world
  after a successful run.
\<close>

record exec_error =
  e_message :: string
  e_stdout :: string
  e_stderr :: string

type_synonym execSync = "string \<Rightarrow> world \<Rightarrow> exec_error + world"

definition error_message :: "error \<Rightarrow> string" where
  "error_message e =
     (case e of
        InvalidAddress \<Rightarrow> ''Invalid address''
      | GenesisNotFound m \<Rightarrow> m
      | GethInitFailed m \<Rightarrow> m
      | FsError code p \<Rightarrow> code @ '': '' @ p
      | SpawnError code p \<Rightarrow> ''spawn '' @ p @ '' '' @ code
      | SyntaxError \<Rightarrow> ''SyntaxError''
      | TypeError \<Rightarrow> ''TypeError'')"

definition CHAINDATA_DIR :: string where
  "CHAINDATA_DIR = ''geth/chaindata''"

definition getGenesisPath :: "world \<Rightarrow> error + string" where
  "getGenesisPath w =
     (let packaged =
            (case resourcesPath w of
               Some r \<Rightarrow>
                 if isPackaged w \<and> r \<noteq> [] \<and> existsSync (path_join [r, ''genesis.json'']) w
                 then Some (path_join [r, ''genesis.json'']) else None
             | None \<Rightarrow> None);
          fromApp = path_join [appPath w, ''resources'', ''genesis.json''];
          fromDir = path_join [dirname w, ''..'', ''..'', ''resources'', ''genesis.json'']
      in case packaged of
           Some p \<Rightarrow> Inr p
         | None \<Rightarrow>
             if existsSync fromApp w then Inr fromApp
             else if existsSync fromDir w then Inr fromDir
             else Inl (GenesisNotFound ''genesis.json not found in resources''))"

definition geth_init_command :: "string \<Rightarrow> string \<Rightarrow> string \<Rightarrow> string" where
  "geth_init_command gethBinaryPath dataDir genesis =
     [CHR 0x22] @ gethBinaryPath @ [CHR 0x22] @ '' --datadir '' @ [CHR 0x22] @ dataDir @ [CHR 0x22]
       @ '' init '' @ [CHR 0x22] @ genesis @ [CHR 0x22]"

definition host_command :: "execSync \<Rightarrow> string \<Rightarrow> world \<Rightarrow> exec_error + world" where
  \<comment> \<open>a command works on the file system; the state of the supervisor is not its to change\<close>
  "host_command exec command w =
     (case exec command w of
        Inl err \<Rightarrow> Inl err
      | Inr w' \<Rightarrow> Inr (w\<lparr>dirs := dirs w', files := files w', modes := modes w'\<rparr>))"

definition genesis_init_failed :: "exec_error \<Rightarrow> world \<Rightarrow> (error + unit) \<times> world" where
  \<comment> \<open>the \<^verbatim>\<open>catch\<close> block: log the error, throw it again with the captured output\<close>
  "genesis_init_failed err w =
     (case log Error ''Genesis init failed''
             [(''message'', JString (e_message err)), (''stdout'', JString (e_stdout err)),
              (''stderr'', JString (e_stderr err))] w of
        (Inl e, w1) \<Rightarrow> (Inl e, w1)
      | (Inr _, w1) \<Rightarrow>
          (Inl (GethInitFailed (''geth init failed: '' @ e_message err @ [CHR 0x0A] @ e_stdout err
                                 @ [CHR 0x0A] @ e_stderr err)), w1))"

definition run_geth_init :: "execSync \<Rightarrow> string \<Rightarrow> string \<Rightarrow> string \<Rightarrow> world \<Rightarrow> (error + unit) \<times> world" where
  \<comment> \<open>the \<^verbatim>\<open>try\<close> block; the success message is logged inside it, so an exception of
      the logger is caught as well (it carries no captured output)\<close>
  "run_geth_init exec gethBinaryPath dataDir genesis w =
     (case host_command exec (geth_init_command gethBinaryPath dataDir genesis) w of
        Inl err \<Rightarrow> genesis_init_failed err w
      | Inr w1 \<Rightarrow>
          (case log Info ''Genesis initialization successful'' [(''dataDir'', JString dataDir)] w1 of
             (Inl e, w2) \<Rightarrow>
               genesis_init_failed \<lparr> e_message = error_message e, e_stdout = [], e_stderr = [] \<rparr> w2
           | (Inr _, w2) \<Rightarrow> (Inr (), w2)))"

definition initMinerDataDir ::
  "execSync \<Rightarrow> string \<Rightarrow> int \<Rightarrow> string option \<Rightarrow> world \<Rightarrow> (error + unit) \<times> world" where
  "initMinerDataDir exec gethBinaryPath minerIndex genesisPath w =
     (let dataDir = getMinerDataDir minerIndex w;
          chaindataDir = path_join [dataDir, CHAINDATA_DIR]
      in if existsSync chaindataDir w
         then log Debug ''Chaindata exists, skipping genesis init'' [(''dataDir'', JString dataDir)] w
         else
           case (case genesisPath of
                   Some g \<Rightarrow> if g \<noteq> [] then Inr g else getGenesisPath w
                 | None \<Rightarrow> getGenesisPath w) of
             Inl e \<Rightarrow> (Inl e, w)
           | Inr genesis \<Rightarrow>
               if \<not> existsSync genesis w
               then (Inl (GenesisNotFound (''Genesis file not found: '' @ genesis)), w)
               else
                 (case mkdirSync dataDir w of
                    Inl e \<Rightarrow> (Inl e, w)
                  | Inr w1 \<Rightarrow>
                 (case mkdirSync (path_join [dataDir, ''keystore'']) w1 of
                    Inl e \<Rightarrow> (Inl e, w1)
                  | Inr w2 \<Rightarrow>
                 (case mkdirSync (path_join [dataDir, ''logs'']) w2 of
                    Inl e \<Rightarrow> (Inl e, w2)
                  | Inr w3 \<Rightarrow>
                 (case log Info ''Initializing miner data dir with Mars Credit genesis''
                         [(''dataDir'', JString dataDir), (''genesis'', JString genesis)] w3 of
                    (Inl e, w4) \<Rightarrow> (Inl e, w4)
                  | (Inr _, w4) \<Rightarrow> run_geth_init exec gethBinaryPath dataDir genesis w4)))))"

section \<open>MinerInstance.ts\<close>

definition NETWORK_ID :: int where
  "NETWORK_ID = 110110"

definition BOOTNODES :: string where
  "BOOTNODES =
     ''enode://bf93a274569cd009e4172c1a41b8bde1fb8d8e7cff1e5130707a0cf5be4ce0fc673c8a138ecb7705025ea4069da8c1d4b7ffc66e8666f7936aa432ce57693353@roundhouse.proxy.rlwy.net:50590,'' @
     ''enode://ca3639067a580a0f1db7412aeeef6d5d5e93606ed7f236a5343fe0d1115fb8c2bea2a22fa86e9794b544f886a4cb0de1afcbccf60960802bf00d81dab9553ec9@monorail.proxy.rlwy.net:26254,'' @
     ''enode://7f2ee75a1c112735aaa43de1e5a6c4d7e07d03a5352b5782ed8e0c7cc046a8c8839ad093b09649e0b4a6ed8900211fb4438765c99d07bb00006ef080a1aa9ab6@viaduct.proxy.rlwy.net:30270,'' @
     ''enode://98710174f4798dae1931e417944ac7a7fb3268d38ef8d3941c8fcc44fe178b118003d8b3d61d85af39c561235a1708f8dd61f8ba47df4c4a6b9156e272af2cfc@monorail.proxy.rlwy.net:29138''"

text \<open>An optional field that is absent or \<^verbatim>\<open>undefined\<close> is \<open>None\<close>.\<close>

record MinerInstanceConfig =
  minerIndex :: int
  gethBinaryPath :: string
  minerThreads :: "int option"
  cacheMB :: "int option"
  etherbase :: "string option"

record ports =
  http :: number
  ws :: number
  p2p :: number

definition getPorts :: "int \<Rightarrow> ports" where
  "getPorts index =
     (let i = number_minus (Finite index) (Finite 1)
      in \<lparr> http = number_plus (Finite 8546) (number_times i (Finite 2)),
           ws = number_plus (Finite 8547) (number_times i (Finite 2)),
           p2p = number_plus (Finite 30304) i \<rparr>)"

text \<open>
  The fields of the class. \<open>healthCheckTimer\<close> says whether the interval timer is set.
\<close>

record MinerInstance =
  config :: MinerInstanceConfig
  process :: "ChildProcess option"
  healthCheckTimer :: bool
  healthFailures :: nat

definition maxHealthFailures :: nat where
  "maxHealthFailures = 3"

definition new_MinerInstance :: "MinerInstanceConfig \<Rightarrow> MinerInstance" where
  "new_MinerInstance c = \<lparr> config = c, process = None, healthCheckTimer = False, healthFailures = 0 \<rparr>"

definition httpPort :: "MinerInstance \<Rightarrow> number" where
  "httpPort inst = http (getPorts (minerIndex (config inst)))"

definition rpcUrl :: "MinerInstance \<Rightarrow> string" where
  "rpcUrl inst = ''http://localhost:'' @ String_of_number (httpPort inst)"

definition isRunning :: "MinerInstance \<Rightarrow> bool" where
  "isRunning inst = (case process inst of None \<Rightarrow> False | Some proc \<Rightarrow> exitCode proc = None)"

definition instance_pid :: "MinerInstance \<Rightarrow> nat option" where
  "instance_pid inst = (case process inst of None \<Rightarrow> None | Some proc \<Rightarrow> pid proc)"

definition startHealthCheck :: "MinerInstance \<Rightarrow> MinerInstance" where
  "startHealthCheck inst = inst\<lparr>healthFailures := 0, healthCheckTimer := True\<rparr>"

definition stopHealthCheck :: "MinerInstance \<Rightarrow> MinerInstance" where
  "stopHealthCheck inst = inst\<lparr>healthCheckTimer := False\<rparr>"

definition remove_pid_file :: "string \<Rightarrow> world \<Rightarrow> world" where
  \<comment> \<open>\<^verbatim>\<open>if (fs.existsSync(pidPath)) { try { fs.unlinkSync(pidPath) } catch {} }\<close>\<close>
  "remove_pid_file pidPath w =
     (if existsSync pidPath w
      then (case unlinkSync pidPath w of Inl _ \<Rightarrow> w | Inr w' \<Rightarrow> w')
      else w)"

definition stop :: "MinerInstance \<times> world \<Rightarrow> MinerInstance \<times> world" where
  "stop = (\<lambda>(inst, w).
     case process inst of
       None \<Rightarrow> (inst, w)
     | Some proc \<Rightarrow>
         let inst1 = stopHealthCheck (inst\<lparr>process := None\<rparr>);
             w1 = remove_pid_file (getMinerPidPath (minerIndex (config inst)) w) w
         in (inst1, w1\<lparr>terminated := terminated w1 @ [proc]\<rparr>))"

definition geth_args :: "MinerInstanceConfig \<Rightarrow> world \<Rightarrow> string list" where
  "geth_args c w =
     (let dataDir = getMinerDataDir (minerIndex c) w;
          keystoreDir = getMinerKeystoreDir (minerIndex c) w;
          pts = getPorts (minerIndex c);
          threads = (case minerThreads c of Some t \<Rightarrow> t | None \<Rightarrow> 1);
          cache = (case cacheMB c of Some m \<Rightarrow> m | None \<Rightarrow> 4096)
      in [''--datadir'', dataDir,
          ''--keystore'', keystoreDir,
          ''--syncmode'', ''full'',
          ''--gcmode'', ''full'',
          ''--http'', ''--http.addr'', ''localhost'', ''--http.port'', String_of_number (http pts),
          ''--http.api'', ''personal,eth,net,web3,miner,admin,debug'',
          ''--http.vhosts'', ''*'', ''--http.corsdomain'', ''*'',
          ''--ws'', ''--ws.addr'', ''localhost'', ''--ws.port'', String_of_number (ws pts),
          ''--ws.api'', ''personal,eth,net,web3,miner,admin,debug'',
          ''--port'', String_of_number (p2p pts),
          ''--networkid'', String_of_number (Finite NETWORK_ID),
          ''--bootnodes'', BOOTNODES,
          ''--nat'', ''any'',
          ''--mine'', ''--miner.threads'', String_of_number (Finite threads),
          ''--verbosity'', ''3'',
          ''--maxpeers'', ''50'',
          ''--cache'', String_of_number (Finite cache),
          ''--cache.database'', ''75'',
          ''--cache.trie'', ''25'',
          ''--cache.gc'', ''25'',
          ''--cache.snapshot'', ''10'',
          ''--txpool.globalslots'', ''8192'',
          ''--txpool.globalqueue'', ''2048'',
          ''--nousb'',
          ''--metrics'',
          ''--allow-insecure-unlock'',
          ''--snapshot'']
         @ (case etherbase c of
              Some a \<Rightarrow> if a \<noteq> [] then [''--miner.etherbase'', a] else []
            | None \<Rightarrow> []))"

definition spawn :: "string \<Rightarrow> string list \<Rightarrow> world \<Rightarrow> ChildProcess \<times> world" where
  "spawn command args w =
     (\<lparr> pid = pid_of_spawn w (length (spawned w)), exitCode = None \<rparr>,
      w\<lparr>spawned := spawned w @ [(command, args)]\<rparr>)"

definition write_pid_file :: "ChildProcess \<Rightarrow> string \<Rightarrow> world \<Rightarrow> error + world" where
  \<comment> \<open>\<^verbatim>\<open>if (proc.pid) { fs.writeFileSync(pidPath, String(proc.pid), 'utf8') }\<close>\<close>
  "write_pid_file proc pidPath w =
     (case pid proc of
        Some n \<Rightarrow> if n \<noteq> 0 then writeFileSync pidPath (String_of_number (Finite (int n))) w else Inr w
      | None \<Rightarrow> Inr w)"

text \<open>
  \<open>start\<close> contains no \<^verbatim>\<open>await\<close>: it runs to its end in one piece. The handlers it
  registers on the child (log lines, \<^verbatim>\<open>error\<close>, \<^verbatim>\<open>exit\<close>) run later; the
  \<^verbatim>\<open>exit\<close> handler is \<open>on_exit\<close> below, the \<^verbatim>\<open>error\<close> handler
  \<open>on_error\<close>.
\<close>

definition start :: "execSync \<Rightarrow> MinerInstance \<times> world \<Rightarrow> (error + unit) \<times> MinerInstance \<times> world" where
  "start exec = (\<lambda>(inst, w).
     let c = config inst in
     if process inst \<noteq> None
     then (case log Warn ''MinerInstance already running'' [(''minerIndex'', JNumber (minerIndex c))] w of
             (r, w') \<Rightarrow> (r, inst, w'))
     else
       case initMinerDataDir exec (gethBinaryPath c) (minerIndex c) None w of
         (Inl e, w1) \<Rightarrow> (Inl e, inst, w1)
       | (Inr _, w1) \<Rightarrow>
       (case mkdirSync (getMinerLogsDir (minerIndex c) w1) w1 of
          Inl e \<Rightarrow> (Inl e, inst, w1)
        | Inr w2 \<Rightarrow>
       (let args = geth_args c w2 in
        case log Info ''Spawning Geth''
               [(''minerIndex'', JNumber (minerIndex c)), (''args'', JStrings (take 15 args))] w2 of
          (Inl e, w3) \<Rightarrow> (Inl e, inst, w3)
        | (Inr _, w3) \<Rightarrow>
       (case spawn (gethBinaryPath c) args w3 of
          (proc, w4) \<Rightarrow>
            (let inst1 = inst\<lparr>process := Some proc\<rparr>;
                 pidPath = getMinerPidPath (minerIndex c) w4
             in case write_pid_file proc pidPath w4 of
                  Inl e \<Rightarrow> (Inl e, inst1, w4)
                | Inr w5 \<Rightarrow> (Inr (), startHealthCheck inst1, w5))))))"

definition on_exit ::
  "int \<Rightarrow> string \<Rightarrow> int option \<Rightarrow> string option \<Rightarrow> MinerInstance \<times> world \<Rightarrow> MinerInstance \<times> world" where
  \<comment> \<open>the handler of the child's \<^verbatim>\<open>exit\<close> event, with the pid path it captured; the
      service listens to the instance's own \<^verbatim>\<open>exit\<close> event and reports the state
      of the tab under which it created the instance\<close>
  "on_exit tab pidPath code signal = (\<lambda>(inst, w).
     let inst1 = stopHealthCheck (inst\<lparr>process := None\<rparr>);
         w1 = remove_pid_file pidPath w;
         w2 = snd (log Info ''MinerInstance exited''
                     [(''minerIndex'', JNumber (minerIndex (config inst))),
                      (''code'', case code of Some n \<Rightarrow> JNumber n | None \<Rightarrow> JNull),
                      (''signal'', case signal of Some s \<Rightarrow> JString s | None \<Rightarrow> JNull)] w1)
     in (inst1, w2\<lparr>emitted := emitted w2 @ [MinerStateStopped tab]\<rparr>))"

text \<open>
  A spawn that fails gives a child without a process id. The host reports the failure
  after the code that spawned has run to its end: it sets the exit code of the child to
  the (negative) error number and emits the child's \<^verbatim>\<open>error\<close> event; no
  \<^verbatim>\<open>exit\<close> event follows, so the instance keeps the child. The handler logs the
  error and emits it as the instance's own \<^verbatim>\<open>error\<close> event, which has no listener
  in the service: \<^verbatim>\<open>emit\<close> throws it.
\<close>

definition on_error :: "error \<Rightarrow> MinerInstance \<times> world \<Rightarrow> (error + unit) \<times> MinerInstance \<times> world" where
  "on_error err = (\<lambda>(inst, w).
     case log Error ''MinerInstance process error''
            [(''minerIndex'', JNumber (minerIndex (config inst))), (''err'', JString (error_message err))] w of
       (Inl e, w1) \<Rightarrow> (Inl e, inst, w1)
     | (Inr _, w1) \<Rightarrow> (Inl err, inst, w1))"

definition spawn_failure ::
  "int \<Rightarrow> error \<Rightarrow> MinerInstance \<times> world \<Rightarrow> ((error + unit) \<times> MinerInstance \<times> world) option" where
  \<comment> \<open>possible for a child without a process id whose exit code is not set yet\<close>
  "spawn_failure errno err = (\<lambda>(inst, w).
     case process inst of
       None \<Rightarrow> None
     | Some proc \<Rightarrow>
         if pid proc \<noteq> None \<or> exitCode proc \<noteq> None then None
         else Some (on_error err (inst\<lparr>process := Some (proc\<lparr>exitCode := Some errno\<rparr>)\<rparr>, w)))"

text \<open>
  \<^verbatim>\<open>checkHealth\<close> is asynchronous. It tests its guard, sends the probe (the
  \<^verbatim>\<open>fetch\<close> of \<open>rpcUrl\<close>, which has no timeout) and gives the control back:
  that is \<open>checkHealth_begin\<close>, with the URL probed, or nothing when the guard ends the
  check. What follows the \<^verbatim>\<open>await\<close> runs when the probe has answered with a status
  that is 2xx or not, or has thrown: that is \<open>checkHealth_resume\<close>. It does not look at
  the guard again. It reports whether it called \<open>stop\<close>.
\<close>

datatype probe = Responded bool | Threw

datatype health_action = NoAction | InvokedStop

definition checkHealth_begin :: "MinerInstance \<Rightarrow> string option" where
  "checkHealth_begin inst =
     (case process inst of
        None \<Rightarrow> None
      | Some proc \<Rightarrow> if exitCode proc \<noteq> None then None else Some (rpcUrl inst))"

definition checkHealth_resume ::
  "probe \<Rightarrow> MinerInstance \<times> world \<Rightarrow> (error + health_action) \<times> MinerInstance \<times> world" where
  "checkHealth_resume res = (\<lambda>(inst, w).
     if res = Responded True then (Inr NoAction, inst\<lparr>healthFailures := 0\<rparr>, w)
     else
       let inst1 = inst\<lparr>healthFailures := healthFailures inst + 1\<rparr>
       in if healthFailures inst1 \<ge> maxHealthFailures
          then (case log Warn ''MinerInstance health check failed repeatedly, stopping''
                       [(''minerIndex'', JNumber (minerIndex (config inst1))),
                        (''failures'', JNumber (int (healthFailures inst1)))] w of
                  (Inl e, w1) \<Rightarrow> (Inl e, inst1, w1)
                | (Inr _, w1) \<Rightarrow> (case stop (inst1, w1) of (inst2, w2) \<Rightarrow> (Inr InvokedStop, inst2, w2)))
          else (Inr NoAction, inst1, w))"

text \<open>
  The interval timer calls \<^verbatim>\<open>checkHealth\<close> every five seconds while it is set,
  whether or not the checks before have been answered: several checks can be waiting
  for their answer. The state of the health checking is the number of checks that wait,
  the instance and the world. \<open>Tick\<close> is a call by the timer, \<open>Answer\<close> the answer to
  one of the waiting checks. A run has no result when it asks for a call by a timer that
  is not set, or for an answer when no check waits.
\<close>

datatype health_event = Tick | Answer probe

definition timer_tick :: "nat \<times> MinerInstance \<times> world \<Rightarrow> (nat \<times> MinerInstance \<times> world) option" where
  "timer_tick = (\<lambda>(n, inst, w).
     if \<not> healthCheckTimer inst then None
     else case checkHealth_begin inst of
            None \<Rightarrow> Some (n, inst, w)
          | Some url \<Rightarrow> Some (Suc n, inst, w))"

definition probe_answer ::
  "probe \<Rightarrow> nat \<times> MinerInstance \<times> world \<Rightarrow> ((error + health_action) \<times> nat \<times> MinerInstance \<times> world) option" where
  "probe_answer res = (\<lambda>(n, inst, w).
     case n of
       0 \<Rightarrow> None
     | Suc m \<Rightarrow> (case checkHealth_resume res (inst, w) of (a, inst1, w1) \<Rightarrow> Some (a, m, inst1, w1)))"

fun health_run ::
  "health_event list \<Rightarrow> nat \<times> MinerInstance \<times> world \<Rightarrow>
     ((error + health_action) list \<times> nat \<times> MinerInstance \<times> world) option" where
  "health_run [] s = Some ([], s)"
| "health_run (Tick # evs) s =
     (case timer_tick s of None \<Rightarrow> None | Some s1 \<Rightarrow> health_run evs s1)"
| "health_run (Answer res # evs) s =
     (case probe_answer res s of
        None \<Rightarrow> None
      | Some (a, s1) \<Rightarrow>
          (case health_run evs s1 of None \<Rightarrow> None | Some (as, s2) \<Rightarrow> Some (a # as, s2)))"

fun answers :: "health_event list \<Rightarrow> probe list" where
  "answers [] = []"
| "answers (Tick # evs) = answers evs"
| "answers (Answer res # evs) = res # answers evs"

definition failed :: "probe \<Rightarrow> bool" where
  \<comment> \<open>the probe threw, or answered with a status outside 2xx\<close>
  "failed res = (res \<noteq> Responded True)"

text \<open>
  The partial configuration a caller passes: an object that holds any of the five keys.
  In \<^verbatim>\<open>{ ...this.config, ...updates }\<close> a key that \<open>updates\<close> holds replaces the
  field, also when its value is \<^verbatim>\<open>undefined\<close>; a key it does not hold leaves the
  field alone. The three optional fields are \<open>Absent\<close>, or \<open>Present\<close> with a value or
  with \<^verbatim>\<open>undefined\<close>. The keys \<^verbatim>\<open>minerIndex\<close> and \<^verbatim>\<open>gethBinaryPath\<close>
  are absent (\<open>None\<close>) or hold a value of their type.
\<close>

datatype 'a field = Absent | Present "'a option"

record PartialConfig =
  p_minerIndex :: "int option"
  p_gethBinaryPath :: "string option"
  p_minerThreads :: "int field"
  p_cacheMB :: "int field"
  p_etherbase :: "string field"

definition field_value :: "'a field \<Rightarrow> 'a option" where
  "field_value f = (case f of Absent \<Rightarrow> None | Present v \<Rightarrow> v)"

definition spread :: "'a option \<Rightarrow> 'a field \<Rightarrow> 'a option" where
  "spread old f = (case f of Absent \<Rightarrow> old | Present v \<Rightarrow> v)"

definition updateConfig :: "PartialConfig \<Rightarrow> MinerInstance \<Rightarrow> MinerInstance" where
  "updateConfig updates inst =
     inst\<lparr>config := (config inst)
       \<lparr>minerIndex := (case p_minerIndex updates of None \<Rightarrow> minerIndex (config inst) | Some i \<Rightarrow> i),
        gethBinaryPath :=
          (case p_gethBinaryPath updates of None \<Rightarrow> gethBinaryPath (config inst) | Some path \<Rightarrow> path),
        minerThreads := spread (minerThreads (config inst)) (p_minerThreads updates),
        cacheMB := spread (cacheMB (config inst)) (p_cacheMB updates),
        etherbase := spread (etherbase (config inst)) (p_etherbase updates)\<rparr>\<rparr>"

section \<open>MinerService.ts\<close>

record MinerService =
  instances :: "(int \<times> MinerInstance) list"
  configCache :: "(int \<times> CachedConfig) list"
  gethPath :: string

record MinerTabState =
  s_minerIndex :: int
  s_running :: bool
  s_pid :: "nat option"
  s_rpcUrl :: string
  s_config :: CachedConfig

definition default_config :: CachedConfig where
  "default_config = \<lparr> c_minerThreads = 1, c_cacheMB = 4096, c_etherbase = None \<rparr>"

definition cached_or_default :: "MinerService \<Rightarrow> int \<Rightarrow> CachedConfig" where
  \<comment> \<open>\<^verbatim>\<open>this.configCache.get(minerIndex) ?? { minerThreads: 1, cacheMB: 4096 }\<close>\<close>
  "cached_or_default svc i = (case map_of (configCache svc) i of Some c \<Rightarrow> c | None \<Rightarrow> default_config)"

definition nullish :: "'a option \<Rightarrow> 'a \<Rightarrow> 'a" where
  "nullish a b = (case a of Some v \<Rightarrow> v | None \<Rightarrow> b)"

definition optional :: "PartialConfig option \<Rightarrow> (PartialConfig \<Rightarrow> 'a field) \<Rightarrow> 'a option" where
  \<comment> \<open>\<^verbatim>\<open>config?.key\<close>\<close>
  "optional cfg key = (case cfg of None \<Rightarrow> None | Some c \<Rightarrow> field_value (key c))"

definition getOrCreateInstance ::
  "int \<Rightarrow> PartialConfig option \<Rightarrow> MinerService \<Rightarrow> MinerInstance \<times> MinerService" where
  "getOrCreateInstance i cfg svc =
     (let cached = cached_or_default svc i;
          merged = \<lparr> c_minerThreads = nullish (optional cfg p_minerThreads) (c_minerThreads cached),
                     c_cacheMB = nullish (optional cfg p_cacheMB) (c_cacheMB cached),
                     c_etherbase = (case optional cfg p_etherbase of
                                      Some a \<Rightarrow> Some a | None \<Rightarrow> c_etherbase cached) \<rparr>;
          svc1 = svc\<lparr>configCache := AList.update i merged (configCache svc)\<rparr>
      in case map_of (instances svc1) i of
           None \<Rightarrow>
             (let inst = new_MinerInstance
                    \<lparr> minerIndex = i, gethBinaryPath = gethPath svc1,
                      minerThreads = Some (c_minerThreads merged),
                      cacheMB = Some (c_cacheMB merged),
                      etherbase = c_etherbase merged \<rparr>
              in (inst, svc1\<lparr>instances := AList.update i inst (instances svc1)\<rparr>))
         | Some inst \<Rightarrow>
             (case cfg of
                None \<Rightarrow> (inst, svc1)
              | Some c \<Rightarrow>
                  (let inst1 = updateConfig c inst
                   in (inst1, svc1\<lparr>instances := AList.update i inst1 (instances svc1)\<rparr>))))"

definition getTabIndices :: "MinerService \<Rightarrow> int list" where
  "getTabIndices svc = sort (map fst (instances svc))"

definition addTab :: "PartialConfig option \<Rightarrow> MinerService \<Rightarrow> int \<times> MinerService" where
  "addTab cfg svc =
     (let existing = getTabIndices svc;
          nextIndex = (if length existing = 0 then 1 else Max (set existing) + 1)
      in (nextIndex, snd (getOrCreateInstance nextIndex cfg svc)))"

definition removeTab :: "int \<Rightarrow> MinerService \<times> world \<Rightarrow> MinerService \<times> world" where
  "removeTab i = (\<lambda>(svc, w).
     case map_of (instances svc) i of
       None \<Rightarrow> (svc, w)
     | Some inst \<Rightarrow>
         (svc\<lparr>instances := AList.delete i (instances svc),
              configCache := AList.delete i (configCache svc)\<rparr>,
          snd (stop (inst, w))))"

definition startMiner ::
  "execSync \<Rightarrow> int \<Rightarrow> PartialConfig option \<Rightarrow> MinerService \<times> world \<Rightarrow> (error + unit) \<times> MinerService \<times> world" where
  "startMiner exec i cfg = (\<lambda>(svc, w).
     case getOrCreateInstance i cfg svc of
       (inst, svc1) \<Rightarrow>
         if isRunning inst
         then (case log Info ''Miner already running'' [(''minerIndex'', JNumber i)] w of
                 (r, w1) \<Rightarrow> (r, svc1, w1))
         else
           (case start exec (inst, w) of
              (r, inst1, w1) \<Rightarrow>
                (let svc2 = svc1\<lparr>instances := AList.update i inst1 (instances svc1)\<rparr>
                 in case r of
                      Inl e \<Rightarrow> (Inl e, svc2, w1)
                    | Inr _ \<Rightarrow>
                        (Inr (), svc2,
                         w1\<lparr>emitted := emitted w1 @
                            [MinerStateRunning i (instance_pid inst1) (rpcUrl inst1)
                               (cached_or_default svc2 i)]\<rparr>))))"

definition stopMiner :: "int \<Rightarrow> MinerService \<times> world \<Rightarrow> MinerService \<times> world" where
  "stopMiner i = (\<lambda>(svc, w).
     case map_of (instances svc) i of
       None \<Rightarrow> (svc, w)
     | Some inst \<Rightarrow>
         (case stop (inst, w) of
            (inst1, w1) \<Rightarrow>
              (svc\<lparr>instances := AList.update i inst1 (instances svc)\<rparr>,
               w1\<lparr>emitted := emitted w1 @ [MinerStateStopped i]\<rparr>)))"

definition getMinerState :: "int \<Rightarrow> MinerService \<Rightarrow> MinerTabState option" where
  "getMinerState i svc =
     (case map_of (instances svc) i of
        None \<Rightarrow> None
      | Some inst \<Rightarrow>
          Some \<lparr> s_minerIndex = minerIndex (config inst),
                 s_running = isRunning inst,
                 s_pid = instance_pid inst,
                 s_rpcUrl = rpcUrl inst,
                 s_config = cached_or_default svc i \<rparr>)"

definition getRpcUrl :: "int \<Rightarrow> MinerService \<Rightarrow> string option" where
  "getRpcUrl i svc = map_option rpcUrl (map_of (instances svc) i)"

definition getRunningMinerIndices :: "MinerService \<Rightarrow> int list" where
  "getRunningMinerIndices svc = map fst (filter (\<lambda>(idx, inst). isRunning inst) (instances svc))"

definition stopAll :: "MinerService \<times> world \<Rightarrow> MinerService \<times> world" where
  \<comment> \<open>every instance of the registry is stopped and reported, in the order of the map\<close>
  "stopAll = (\<lambda>(svc, w). fold stopMiner (map fst (instances svc)) (svc, w))"

definition setGethPath :: "string \<Rightarrow> MinerService \<Rightarrow> MinerService" where
  "setGethPath path svc = svc\<lparr>gethPath := path\<rparr>"

definition new_MinerService :: "world \<Rightarrow> MinerService" where
  "new_MinerService w = \<lparr> instances = [], configCache = [], gethPath = getGethBinaryPath w \<rparr>"


text \<open>
  The states the service can be in: it starts empty, its methods are called, and between
  the calls the handlers of an instance run: a health check is answered, the child exits,
  a failed spawn or another error of the child is reported.
\<close>

inductive reachable :: "MinerService \<times> world \<Rightarrow> bool" where
  r_new: "reachable (new_MinerService w, w)"
| r_setGethPath: "reachable (svc, w) \<Longrightarrow> reachable (setGethPath path svc, w)"
| r_getOrCreateInstance: "reachable (svc, w) \<Longrightarrow> reachable (snd (getOrCreateInstance i cfg svc), w)"
| r_addTab: "reachable (svc, w) \<Longrightarrow> reachable (snd (addTab cfg svc), w)"
| r_removeTab: "reachable (svc, w) \<Longrightarrow> reachable (removeTab i (svc, w))"
| r_startMiner: "reachable (svc, w) \<Longrightarrow> reachable (snd (startMiner exec i cfg (svc, w)))"
| r_stopMiner: "reachable (svc, w) \<Longrightarrow> reachable (stopMiner i (svc, w))"
| r_stopAll: "reachable (svc, w) \<Longrightarrow> reachable (stopAll (svc, w))"
| r_checkHealth:
    "reachable (svc, w) \<Longrightarrow> map_of (instances svc) i = Some inst \<Longrightarrow>
     checkHealth_resume res (inst, w) = (r, inst', w') \<Longrightarrow>
     reachable (svc\<lparr>instances := AList.update i inst' (instances svc)\<rparr>, w')"
| r_on_exit:
    "reachable (svc, w) \<Longrightarrow> map_of (instances svc) i = Some inst \<Longrightarrow>
     on_exit i pidPath code signal (inst, w) = (inst', w') \<Longrightarrow>
     reachable (svc\<lparr>instances := AList.update i inst' (instances svc)\<rparr>, w')"
| r_spawn_failure:
    "reachable (svc, w) \<Longrightarrow> map_of (instances svc) i = Some inst \<Longrightarrow>
     spawn_failure errno err (inst, w) = Some (r, inst', w') \<Longrightarrow>
     reachable (svc\<lparr>instances := AList.update i inst' (instances svc)\<rparr>, w')"
| r_on_error:
    "reachable (svc, w) \<Longrightarrow> map_of (instances svc) i = Some inst \<Longrightarrow>
     on_error err (inst, w) = (r, inst', w') \<Longrightarrow>
     reachable (svc\<lparr>instances := AList.update i inst' (instances svc)\<rparr>, w')"

definition cache_within_registry :: "MinerService \<Rightarrow> bool" where
  \<comment> \<open>a configuration is remembered only for an index that has an instance\<close>
  "cache_within_registry svc = (fst ` set (configCache svc) \<subseteq> fst ` set (instances svc))"

section \<open>WalletService.ts\<close>

subsection \<open>Addresses\<close>

definition is_hex_digit :: "char \<Rightarrow> bool" where
  \<comment> \<open>the class \<^verbatim>\<open>[a-fA-F0-9]\<close>\<close>
  "is_hex_digit c =
     (let n = of_char c :: nat
      in (97 \<le> n \<and> n \<le> 102) \<or> (65 \<le> n \<and> n \<le> 70) \<or> (48 \<le> n \<and> n \<le> 57))"

definition isValidAddress :: "string \<Rightarrow> bool" where
  \<comment> \<open>\<^verbatim>\<open>/^0x[a-fA-F0-9]{40}$/.test(address)\<close>\<close>
  "isValidAddress address =
     (length address = 42 \<and> take 2 address = ''0x'' \<and> list_all is_hex_digit (drop 2 address))"

text \<open>
  \<^verbatim>\<open>String.prototype.trim\<close> removes white space and line terminators from both
  ends. In UTF-8 these are the bytes 09 to 0D and 20, and the sequences of U+00A0, U+1680,
  U+2000 to U+200A, U+2028, U+2029, U+202F, U+205F, U+3000 and U+FEFF.
\<close>

definition ws_prefix_len :: "nat list \<Rightarrow> nat" where
  "ws_prefix_len bs =
     (case bs of
        [] \<Rightarrow> 0
      | a # r1 \<Rightarrow>
          if (9 \<le> a \<and> a \<le> 13) \<or> a = 32 then 1
          else (case r1 of
                  [] \<Rightarrow> 0
                | b # r2 \<Rightarrow>
                    if a = 0xC2 \<and> b = 0xA0 then 2
                    else (case r2 of
                            [] \<Rightarrow> 0
                          | c # r3 \<Rightarrow>
                              if (a = 0xE1 \<and> b = 0x9A \<and> c = 0x80)
                                 \<or> (a = 0xE2 \<and> b = 0x80 \<and> ((0x80 \<le> c \<and> c \<le> 0x8A) \<or> c = 0xA8 \<or> c = 0xA9 \<or> c = 0xAF))
                                 \<or> (a = 0xE2 \<and> b = 0x81 \<and> c = 0x9F)
                                 \<or> (a = 0xE3 \<and> b = 0x80 \<and> c = 0x80)
                                 \<or> (a = 0xEF \<and> b = 0xBB \<and> c = 0xBF)
                              then 3 else 0)))"

definition ws_suffix_len :: "nat list \<Rightarrow> nat" where
  \<comment> \<open>the same on the reversed text: \<open>a\<close> is the last byte\<close>
  "ws_suffix_len bs =
     (case bs of
        [] \<Rightarrow> 0
      | a # r1 \<Rightarrow>
          if (9 \<le> a \<and> a \<le> 13) \<or> a = 32 then 1
          else (case r1 of
                  [] \<Rightarrow> 0
                | b # r2 \<Rightarrow>
                    if b = 0xC2 \<and> a = 0xA0 then 2
                    else (case r2 of
                            [] \<Rightarrow> 0
                          | c # r3 \<Rightarrow>
                              if (c = 0xE1 \<and> b = 0x9A \<and> a = 0x80)
                                 \<or> (c = 0xE2 \<and> b = 0x80 \<and> ((0x80 \<le> a \<and> a \<le> 0x8A) \<or> a = 0xA8 \<or> a = 0xA9 \<or> a = 0xAF))
                                 \<or> (c = 0xE2 \<and> b = 0x81 \<and> a = 0x9F)
                                 \<or> (c = 0xE3 \<and> b = 0x80 \<and> a = 0x80)
                                 \<or> (c = 0xEF \<and> b = 0xBB \<and> a = 0xBF)
                              then 3 else 0)))"

primrec strip_ws :: "(nat list \<Rightarrow> nat) \<Rightarrow> nat \<Rightarrow> string \<Rightarrow> string" where
  \<comment> \<open>each round removes one white space; the text's length is rounds enough\<close>
  "strip_ws len 0 s = s"
| "strip_ws len (Suc n) s =
     (let k = len (map of_char s) in if k = 0 then s else strip_ws len n (drop k s))"

definition trim :: "string \<Rightarrow> string" where
  "trim s =
     (let s1 = strip_ws ws_prefix_len (length s) s
      in rev (strip_ws ws_suffix_len (length s1) (rev s1)))"

definition startsWith :: "string \<Rightarrow> string \<Rightarrow> bool" where
  "startsWith s p = (take (length p) s = p)"

definition setAddressOnly :: "string \<Rightarrow> world \<Rightarrow> (error + unit) \<times> world" where
  "setAddressOnly address w =
     (if \<not> isValidAddress address then (Inl InvalidAddress, w)
      else
        let dir = getMarsCreditDir w
        in case mkdirSync dir w of
             Inl e \<Rightarrow> (Inl e, w)
           | Inr w1 \<Rightarrow>
               (case writeFileSync (path_join [dir, ''mining_address.txt'']) address w1 of
                  Inl e \<Rightarrow> (Inl e, w1)
                | Inr w2 \<Rightarrow> log Info ''Address-only mining address set'' [(''address'', JString address)] w2))"

text \<open>
  \<^verbatim>\<open>JSON.parse(content).address\<close> is the business of the language: \<open>parse_address\<close>
  gives the error thrown for text that is not JSON or has no object to read from (or an
  address that is not a string), \<open>None\<close> for a missing or empty address, the address
  otherwise.
\<close>

type_synonym parse_address = "string \<Rightarrow> error + string option"

definition keystore_address :: "parse_address \<Rightarrow> string \<Rightarrow> world \<Rightarrow> error + string option" where
  \<comment> \<open>the branch for a miner index: the first \<^verbatim>\<open>UTC--\<close> file of its keystore\<close>
  "keystore_address parse keystoreDir w =
     (if existsSync keystoreDir w
      then (case readdirSync keystoreDir w of
              Inl e \<Rightarrow> Inl e
            | Inr names \<Rightarrow>
                (case filter (\<lambda>f. startsWith f ''UTC--'') names of
                   [] \<Rightarrow> Inr None
                 | f # _ \<Rightarrow>
                     (case readFileSync (path_join [keystoreDir, f]) w of
                        Inl e \<Rightarrow> Inl e
                      | Inr content \<Rightarrow>
                          (case parse content of
                             Inl e \<Rightarrow> Inl e
                           | Inr None \<Rightarrow> Inr None
                           | Inr (Some a) \<Rightarrow>
                               if a = [] then Inr None
                               else Inr (Some (if startsWith a ''0x'' then a else ''0x'' @ a))))))
      else Inr None)"

definition getStoredMiningAddress :: "parse_address \<Rightarrow> int option \<Rightarrow> world \<Rightarrow> error + string option" where
  "getStoredMiningAddress parse index w =
     (let addressFile = path_join [getMarsCreditDir w, ''mining_address.txt'']
      in if existsSync addressFile w
         then (case readFileSync addressFile w of Inl e \<Rightarrow> Inl e | Inr text \<Rightarrow> Inr (Some (trim text)))
         else (case index of
                 Some i \<Rightarrow> keystore_address parse (getMinerKeystoreDir i w) w
               | None \<Rightarrow> Inr None))"

subsection \<open>Buffers\<close>

text \<open>
  Where the code turns text into bytes itself, the text is a JavaScript string as it is:
  a list of UTF-16 code units. \<^verbatim>\<open>Buffer.from(s, 'utf8')\<close> encodes the code points
  of the string, a surrogate without its partner as U+FFFD;
  \<^verbatim>\<open>buf.toString('utf8')\<close> decodes as the WHATWG decoder does, giving U+FFFD for
  every maximal part of an ill-formed sequence. Bytes inside the codec are numbers below
  256, and the masks and shifts are written as divisions, remainders and differences.
\<close>

type_synonym byte = "8 word"
type_synonym jsstring = "16 word list"

definition is_high_surrogate :: "nat \<Rightarrow> bool" where
  "is_high_surrogate u = (0xD800 \<le> u \<and> u \<le> 0xDBFF)"

definition is_low_surrogate :: "nat \<Rightarrow> bool" where
  "is_low_surrogate u = (0xDC00 \<le> u \<and> u \<le> 0xDFFF)"

definition utf8_bytes :: "nat \<Rightarrow> nat list" where
  "utf8_bytes cp =
     (if cp < 0x80 then [cp]
      else if cp < 0x800 then [0xC0 + cp div 64, 0x80 + cp mod 64]
      else if cp < 0x10000 then [0xE0 + cp div 4096, 0x80 + cp div 64 mod 64, 0x80 + cp mod 64]
      else [0xF0 + cp div 262144, 0x80 + cp div 4096 mod 64, 0x80 + cp div 64 mod 64, 0x80 + cp mod 64])"

fun utf8_encode :: "nat list \<Rightarrow> nat list" where
  "utf8_encode [] = []"
| "utf8_encode [u] =
     (if is_high_surrogate u \<or> is_low_surrogate u then utf8_bytes 0xFFFD else utf8_bytes u)"
| "utf8_encode (u # l # us) =
     (if is_high_surrogate u \<and> is_low_surrogate l
      then utf8_bytes (0x10000 + (u - 0xD800) * 1024 + (l - 0xDC00)) @ utf8_encode us
      else if is_high_surrogate u \<or> is_low_surrogate u then utf8_bytes 0xFFFD @ utf8_encode (l # us)
      else utf8_bytes u @ utf8_encode (l # us))"

text \<open>
  A string is well formed when every surrogate is one half of a pair, a high surrogate
  followed by a low one: the strings that are Unicode text.
\<close>

fun paired_surrogates :: "nat list \<Rightarrow> bool" where
  "paired_surrogates [] = True"
| "paired_surrogates [u] = (\<not> is_high_surrogate u \<and> \<not> is_low_surrogate u)"
| "paired_surrogates (u # l # us) =
     (if is_high_surrogate u \<and> is_low_surrogate l then paired_surrogates us
      else \<not> is_high_surrogate u \<and> \<not> is_low_surrogate u \<and> paired_surrogates (l # us))"

definition well_formed :: "jsstring \<Rightarrow> bool" where
  "well_formed s = paired_surrogates (map unat s)"

definition Buffer_from_utf8 :: "jsstring \<Rightarrow> byte list" where
  "Buffer_from_utf8 s = map of_nat (utf8_encode (map unat s))"

function utf8_decoder :: "nat \<Rightarrow> nat \<Rightarrow> nat \<Rightarrow> nat \<Rightarrow> nat list \<Rightarrow> nat list" where
  \<comment> \<open>the code point collected so far, the number of bytes the sequence still needs, the
      bounds for the next byte, the bytes; a byte that cannot continue a sequence ends it
      and is read again as the start of the next one\<close>
  "utf8_decoder cp needed lower upper [] = (if needed \<noteq> 0 then [0xFFFD] else [])"
| "utf8_decoder cp needed lower upper (b # bs) =
     (if needed = 0 then
        (if b \<le> 0x7F then b # utf8_decoder 0 0 0x80 0xBF bs
         else if 0xC2 \<le> b \<and> b \<le> 0xDF then utf8_decoder (b - 0xC0) 1 0x80 0xBF bs
         else if 0xE0 \<le> b \<and> b \<le> 0xEF
           then utf8_decoder (b - 0xE0) 2 (if b = 0xE0 then 0xA0 else 0x80) (if b = 0xED then 0x9F else 0xBF) bs
         else if 0xF0 \<le> b \<and> b \<le> 0xF4
           then utf8_decoder (b - 0xF0) 3 (if b = 0xF0 then 0x90 else 0x80) (if b = 0xF4 then 0x8F else 0xBF) bs
         else 0xFFFD # utf8_decoder 0 0 0x80 0xBF bs)
      else if b < lower \<or> upper < b then 0xFFFD # utf8_decoder 0 0 0x80 0xBF (b # bs)
      else if needed = 1 then (cp * 64 + (b - 0x80)) # utf8_decoder 0 0 0x80 0xBF bs
      else utf8_decoder (cp * 64 + (b - 0x80)) (needed - 1) 0x80 0xBF bs)"
  by pat_completeness auto
termination
  by (relation "measure (\<lambda>(cp, needed, lower, upper, bs). 2 * length bs + (if needed = 0 then 0 else 1))")
     auto

definition utf8_decode :: "nat list \<Rightarrow> nat list" where
  "utf8_decode bs = utf8_decoder 0 0 0x80 0xBF bs"

definition utf16_units :: "nat \<Rightarrow> nat list" where
  "utf16_units cp =
     (if cp < 0x10000 then [cp]
      else [0xD800 + (cp - 0x10000) div 1024, 0xDC00 + (cp - 0x10000) mod 1024])"

definition Buffer_toString_utf8 :: "byte list \<Rightarrow> jsstring" where
  "Buffer_toString_utf8 buf = map of_nat (concat (map utf16_units (utf8_decode (map unat buf))))"

text \<open>Base64 with the standard alphabet and padding, as \<^verbatim>\<open>buf.toString('base64')\<close>
  writes it.\<close>

definition base64_alphabet :: string where
  "base64_alphabet = ''ABCDEFGHIJKLMNOPQRSTUVWXYZabcdefghijklmnopqrstuvwxyz0123456789+/''"

definition base64_char :: "nat \<Rightarrow> char" where
  "base64_char n = base64_alphabet ! n"

fun base64_groups :: "nat list \<Rightarrow> string" where
  "base64_groups [] = []"
| "base64_groups [a] = [base64_char (a div 4), base64_char (a mod 4 * 16), CHR ''='', CHR ''='']"
| "base64_groups [a, b] =
     [base64_char (a div 4), base64_char (a mod 4 * 16 + b div 16), base64_char (b mod 16 * 4), CHR ''='']"
| "base64_groups (a # b # c # r) =
     [base64_char (a div 4), base64_char (a mod 4 * 16 + b div 16),
      base64_char (b mod 16 * 4 + c div 64), base64_char (c mod 64)] @ base64_groups r"

definition Buffer_toString_base64 :: "byte list \<Rightarrow> string" where
  "Buffer_toString_base64 buf = base64_groups (map unat buf)"

text \<open>
  \<^verbatim>\<open>Buffer.from(s, 'base64')\<close> reads the standard and the URL-safe alphabet, passes
  over every other character, and stops at the first \<^verbatim>\<open>=\<close>. A last group of two or
  three characters gives one or two bytes, a single character none.
\<close>

definition unbase64 :: "char \<Rightarrow> nat option" where
  "unbase64 c =
     (let n = of_char c :: nat
      in if 65 \<le> n \<and> n \<le> 90 then Some (n - 65)
         else if 97 \<le> n \<and> n \<le> 122 then Some (n - 71)
         else if 48 \<le> n \<and> n \<le> 57 then Some (n + 4)
         else if c = CHR ''+'' \<or> c = CHR ''-'' then Some 62
         else if c = CHR ''/'' \<or> c = CHR ''_'' then Some 63
         else None)"

fun bytes_of_sextets :: "nat list \<Rightarrow> nat list" where
  "bytes_of_sextets (s1 # s2 # s3 # s4 # r) =
     [(s1 * 4 + s2 div 16) mod 256, (s2 mod 16 * 16 + s3 div 4) mod 256, (s3 mod 4 * 64 + s4) mod 256]
       @ bytes_of_sextets r"
| "bytes_of_sextets [s1, s2, s3] = [(s1 * 4 + s2 div 16) mod 256, (s2 mod 16 * 16 + s3 div 4) mod 256]"
| "bytes_of_sextets [s1, s2] = [(s1 * 4 + s2 div 16) mod 256]"
| "bytes_of_sextets [s1] = []"
| "bytes_of_sextets [] = []"

definition Buffer_from_base64 :: "string \<Rightarrow> byte list" where
  "Buffer_from_base64 s =
     map of_nat (bytes_of_sextets (List.map_filter unbase64 (takeWhile (\<lambda>c. c \<noteq> CHR ''='') s)))"

subsection \<open>The mnemonic store\<close>

definition xor_key :: "byte list \<Rightarrow> byte list \<Rightarrow> byte list" where
  \<comment> \<open>\<^verbatim>\<open>for (i...) buf[i] ^= key[i % key.length]\<close>; with an empty key the index is
      \<^verbatim>\<open>NaN\<close>, the operand \<^verbatim>\<open>undefined\<close>, and the byte stays as it is\<close>
  "xor_key buf key =
     map (\<lambda>(i, b). if length key = 0 then b else b XOR key ! (i mod length key)) (enumerate 0 buf)"

definition simpleObfuscate :: "jsstring \<Rightarrow> jsstring \<Rightarrow> string" where
  "simpleObfuscate data password =
     Buffer_toString_base64 (xor_key (Buffer_from_utf8 data) (Buffer_from_utf8 password))"

definition simpleDeobfuscate :: "string \<Rightarrow> jsstring \<Rightarrow> jsstring" where
  "simpleDeobfuscate encoded password =
     Buffer_toString_utf8 (xor_key (Buffer_from_base64 encoded) (Buffer_from_utf8 password))"

definition saveMnemonic :: "jsstring \<Rightarrow> jsstring \<Rightarrow> world \<Rightarrow> (error + unit) \<times> world" where
  "saveMnemonic mnemonic password w =
     (let encPath = getWalletEncPath w;
          dir = path_dirname encPath
      in case mkdirSync dir w of
           Inl e \<Rightarrow> (Inl e, w)
         | Inr w1 \<Rightarrow>
             (case writeFileSync encPath (simpleObfuscate mnemonic password) w1 of
                Inl e \<Rightarrow> (Inl e, w1)
              | Inr w2 \<Rightarrow>
                  (case chmodSync encPath 384 w2 of
                     Inl e \<Rightarrow> (Inl e, w2)
                   | Inr w3 \<Rightarrow> log Info ''Mnemonic saved to encrypted store'' [] w3)))"

definition loadMnemonic :: "jsstring \<Rightarrow> world \<Rightarrow> jsstring option" where
  \<comment> \<open>\<open>None\<close> is \<^verbatim>\<open>null\<close>: no file, or an exception while reading it\<close>
  "loadMnemonic password w =
     (let encPath = getWalletEncPath w
      in if \<not> existsSync encPath w then None
         else (case readFileSync encPath w of
                 Inl _ \<Rightarrow> None
               | Inr encoded \<Rightarrow> Some (simpleDeobfuscate encoded password)))"

section \<open>NetworkService.ts\<close>

text \<open>
  \<^verbatim>\<open>BigInt(text)\<close>: white space around the literal is dropped; nothing is zero; a
  literal with the prefix \<^verbatim>\<open>0x\<close>, \<^verbatim>\<open>0o\<close> or \<^verbatim>\<open>0b\<close> has no sign; a decimal
  literal may have one; anything else is a \<^verbatim>\<open>SyntaxError\<close>. BigInt division
  truncates towards zero and the remainder has the sign of the dividend.
\<close>

definition digit_value :: "nat \<Rightarrow> char \<Rightarrow> nat option" where
  "digit_value radix c =
     (let n = of_char c :: nat;
          v = (if 48 \<le> n \<and> n \<le> 57 then Some (n - 48)
               else if 97 \<le> n \<and> n \<le> 122 then Some (n - 87)
               else if 65 \<le> n \<and> n \<le> 90 then Some (n - 55)
               else None)
      in case v of Some d \<Rightarrow> if d < radix then Some d else None | None \<Rightarrow> None)"

definition parse_digits :: "nat \<Rightarrow> string \<Rightarrow> error + int" where
  "parse_digits radix s =
     (if s = [] then Inl SyntaxError
      else case foldl (\<lambda>acc c. case acc of
                                  None \<Rightarrow> None
                                | Some a \<Rightarrow> map_option (\<lambda>d. a * radix + d) (digit_value radix c))
                  (Some 0) s of
             None \<Rightarrow> Inl SyntaxError
           | Some n \<Rightarrow> Inr (int n))"

definition BigInt :: "string \<Rightarrow> error + int" where
  "BigInt text =
     (let s = trim text
      in if s = [] then Inr 0
         else if startsWith s ''0x'' \<or> startsWith s ''0X'' then parse_digits 16 (drop 2 s)
         else if startsWith s ''0o'' \<or> startsWith s ''0O'' then parse_digits 8 (drop 2 s)
         else if startsWith s ''0b'' \<or> startsWith s ''0B'' then parse_digits 2 (drop 2 s)
         else if startsWith s ''-'' then map_sum id uminus (parse_digits 10 (drop 1 s))
         else if startsWith s ''+'' then parse_digits 10 (drop 1 s)
         else parse_digits 10 s)"

definition bigint_div :: "int \<Rightarrow> int \<Rightarrow> int" where
  "bigint_div a b = sgn a * sgn b * (\<bar>a\<bar> div \<bar>b\<bar>)"

definition bigint_rem :: "int \<Rightarrow> int \<Rightarrow> int" where
  "bigint_rem a b = sgn a * (\<bar>a\<bar> mod \<bar>b\<bar>)"

definition padStart :: "nat \<Rightarrow> char \<Rightarrow> string \<Rightarrow> string" where
  "padStart n c s = replicate (n - length s) c @ s"

definition strip_trailing_zeros :: "string \<Rightarrow> string" where
  \<comment> \<open>\<^verbatim>\<open>.replace(/0+$/, '')\<close>\<close>
  "strip_trailing_zeros s = rev (dropWhile (\<lambda>c. c = CHR ''0'') (rev s))"

definition weiToMars :: "string \<Rightarrow> error + string" where
  "weiToMars weiHex =
     (case BigInt weiHex of
        Inl e \<Rightarrow> Inl e
      | Inr wei \<Rightarrow>
          let divisor = 10 ^ 18;
              whole = bigint_div wei divisor;
              frac = bigint_rem wei divisor;
              trimmed = strip_trailing_zeros (take 6 (padStart 18 (CHR ''0'') (String_of_int frac)));
              fracStr = (if trimmed \<noteq> [] then trimmed else ''0'')
          in Inr (if fracStr \<noteq> [] then String_of_int whole @ ''.'' @ fracStr else String_of_int whole))"

section \<open>Sample hosts\<close>

text \<open>
  Concrete hosts on which the theorems below are instantiated: a Linux machine with the
  application unpacked under \<^verbatim>\<open>/opt/app\<close>, a \<^verbatim>\<open>geth init\<close> that creates the chain data
  of miner 1, and one that fails.
\<close>

definition sample_host :: world where
  "sample_host =
     \<lparr> homedir = ''/home/miner'', platform = ''linux'', isPackaged = False, resourcesPath = None,
       appPath = ''/opt/app'', dirname = ''/opt/app/dist/electron'',
       dirs = [''/home'', ''/home/miner'', ''/opt'', ''/opt/app'', ''/opt/app/resources''],
       files = [(''/opt/app/resources/genesis.json'', ''{}'')],
       modes = [],
       logDir = None,
       log_line = (\<lambda>level message meta. message @ [CHR 0x0A]),
       pid_of_spawn = (\<lambda>n. Some (4000 + n)),
       spawned = [], terminated = [], emitted = [] \<rparr>"

definition sample_geth_init :: execSync where
  "sample_geth_init command w =
     (case mkdirSync ''/home/miner/.marscredit/miners/1/geth/chaindata'' w of
        Inl e \<Rightarrow> Inl \<lparr> e_message = ''Command failed'', e_stdout = [],
                        e_stderr = ''Fatal: failed to write genesis block'' \<rparr>
      | Inr w' \<Rightarrow> Inr w')"

definition failing_geth_init :: execSync where
  "failing_geth_init command w =
     Inl \<lparr> e_message = ''Command failed'', e_stdout = [], e_stderr = ''Fatal: invalid genesis file'' \<rparr>"

text \<open>
  The same host with a keystore file of miner 1, and a reader that knows the address this
  file holds.
\<close>

definition sample_keystore_host :: world where
  "sample_keystore_host =
     sample_host
       \<lparr> dirs := dirs sample_host @
           [''/home/miner/.marscredit'', ''/home/miner/.marscredit/miners'',
            ''/home/miner/.marscredit/miners/1'', ''/home/miner/.marscredit/miners/1/keystore''],
         files := files sample_host @
           [(''/home/miner/.marscredit/miners/1/keystore/UTC--2024-01-01T00-00-00.000Z--00000000000000000000000000000000000000aa'',
             ''keystore of 00000000000000000000000000000000000000aa'')] \<rparr>"

definition sample_parse :: parse_address where
  "sample_parse text =
     (if startsWith text ''keystore of '' then Inr (Some (drop 12 text)) else Inl SyntaxError)"

text \<open>The same host with the chain data of miner 1 in place and no log directory.\<close>

definition sample_synced_host :: world where
  "sample_synced_host =
     sample_host
       \<lparr> dirs := dirs sample_host @
           [''/home/miner/.marscredit'', ''/home/miner/.marscredit/miners'',
            ''/home/miner/.marscredit/miners/1'', ''/home/miner/.marscredit/miners/1/geth'',
            ''/home/miner/.marscredit/miners/1/geth/chaindata''] \<rparr>"

text \<open>An instance of miner 1 that owns a live child.\<close>

definition sample_running_instance :: MinerInstance where
  "sample_running_instance =
     \<lparr> config = \<lparr> minerIndex = 1, gethBinaryPath = ''/home/miner/.marscredit/bin/geth'',
                   minerThreads = Some 1, cacheMB = Some 4096, etherbase = None \<rparr>,
       process = Some \<lparr> pid = Some 4000, exitCode = None \<rparr>,
       healthCheckTimer = True,
       healthFailures = 0 \<rparr>"

text \<open>A configuration a caller passes for a tab.\<close>

definition sample_config :: PartialConfig where
  "sample_config =
     \<lparr> p_minerIndex = None, p_gethBinaryPath = None,
       p_minerThreads = Present (Some 4), p_cacheMB = Present (Some 8192),
       p_etherbase = Present (Some ''0x000000000000000000000000000000000000dEaD'') \<rparr>"

text \<open>The sample host after the logger has settled on its directory.\<close>

definition sample_logging_host :: world where
  "sample_logging_host =
     sample_host
       \<lparr> dirs := dirs sample_host @ [''/home/miner/.marscredit'', ''/home/miner/.marscredit/logs''],
         logDir := Some ''/home/miner/.marscredit/logs'' \<rparr>"

section \<open>Whole numbers that a double holds\<close>

lemma bit_length_le: "a < 2 ^ n \<Longrightarrow> bit_length a \<le> n"
proof (induction n arbitrary: a)
  case 0
  then show ?case by (simp add: bit_length.simps)
next
  case (Suc n)
  then have "a div 2 < 2 ^ n" by auto
  from Suc.IH [OF this] show ?case by (subst bit_length.simps) simp
qed

lemma bit_length_gt: "2 ^ n \<le> a \<Longrightarrow> n < bit_length a"
proof (induction n arbitrary: a)
  case 0
  then show ?case by (subst bit_length.simps) auto
next
  case (Suc n)
  then have "2 ^ n \<le> a div 2" by auto
  moreover from Suc.prems have "a \<noteq> 0" by (cases "a = 0") simp_all
  ultimately show ?case using Suc.IH [of "a div 2"] by (subst bit_length.simps) simp
qed

lemma bit_length_lower: "0 < a \<Longrightarrow> 2 ^ (bit_length a - 1) \<le> a"
proof (induction a rule: bit_length.induct)
  case (1 n)
  show ?case
  proof (cases "n div 2 = 0")
    case True
    with 1 have "n = 1" by (auto simp: div_eq_0_iff)
    then show ?thesis by (simp add: bit_length.simps)
  next
    case False
    then have pos: "0 < n div 2" by simp
    with 1 have ih: "2 ^ (bit_length (n div 2) - 1) \<le> n div 2" by simp
    from pos have "0 < bit_length (n div 2)" by (subst bit_length.simps) simp
    then have "bit_length n - 1 = Suc (bit_length (n div 2) - 1)"
      using 1 by (subst bit_length.simps) simp
    with ih show ?thesis by simp
  qed
qed

lemma nearest_double_exact: "a < 2 ^ 53 \<Longrightarrow> nearest_double a = a"
  using bit_length_le [of a 53] by (simp add: nearest_double_def Let_def)

lemma nearest_double_large:
  assumes "2 ^ 53 \<le> a"
  shows "2 ^ 53 \<le> nearest_double a"
proof -
  define e where "e = bit_length a - 53"
  from bit_length_gt [OF assms] have bl: "bit_length a = e + 53" and e: "1 \<le> e"
    by (simp_all add: e_def)
  from assms have "0 < a" by (simp add: order_less_le_trans [of 0 "2 ^ 53" a])
  from bit_length_lower [OF this] bl have "2 ^ (52 + e) \<le> a" by simp
  then have "2 ^ 52 * 2 ^ e \<le> a" by (simp only: power_add)
  then have q: "2 ^ 52 \<le> a div 2 ^ e"
    by (simp add: less_eq_div_iff_mult_less_eq)
  have "(2::nat) ^ 53 = 2 ^ 52 * 2 ^ 1" by simp
  also have "\<dots> \<le> 2 ^ 52 * 2 ^ e" using e by (intro mult_le_mono2 power_increasing) simp_all
  also have "\<dots> \<le> a div 2 ^ e * 2 ^ e" using q by (intro mult_le_mono1)
  finally have base: "2 ^ 53 \<le> a div 2 ^ e * 2 ^ e" .
  have "a div 2 ^ e * 2 ^ e \<le> (a div 2 ^ e + 1) * 2 ^ e" by simp
  with base show ?thesis
    unfolding nearest_double_def Let_def e_def [symmetric] by (auto intro: order_trans)
qed

lemma shortest_from_exact: "a < 2 ^ 53 \<Longrightarrow> shortest_from k a = a"
proof (induction k a rule: shortest_from.induct)
  case (1 k a)
  let ?n = "length (digits_of a)"
  let ?g = "(10::nat) ^ (?n - k)"
  let ?lo = "a div ?g * ?g"
  let ?hi = "?lo + ?g"
  have lo_le: "?lo \<le> a" by simp
  have hi_gt: "a < ?hi"
  proof -
    have "a = ?lo + a mod ?g" by (simp only: div_mult_mod_eq)
    moreover have "a mod ?g < ?g" by simp
    ultimately show ?thesis by linarith
  qed
  have lo: "?lo = a" if "nearest_double ?lo = a"
  proof -
    from lo_le "1.prems" have "?lo < 2 ^ 53" by (rule le_less_trans)
    from nearest_double_exact [OF this] that show ?thesis by simp
  qed
  have hi: "nearest_double ?hi \<noteq> a"
  proof (cases "?hi < 2 ^ 53")
    case True
    with nearest_double_exact [of ?hi] hi_gt show ?thesis by simp
  next
    case False
    then have "2 ^ 53 \<le> ?hi" by simp
    from nearest_double_large [OF this] "1.prems" show ?thesis by simp
  qed
  show ?case
  proof (cases "?n \<le> k")
    case True
    then show ?thesis by (subst shortest_from.simps) (simp add: Let_def)
  next
    case False
    show ?thesis
    proof (cases "nearest_double ?lo = a")
      case True
      with False hi lo show ?thesis by (subst shortest_from.simps) (simp add: Let_def)
    next
      case nlo: False
      from "1.IH" [OF refl refl refl refl False _ _ "1.prems"] nlo hi
      have "shortest_from (Suc k) a = a" by simp
      with False nlo hi show ?thesis by (subst shortest_from.simps) (simp add: Let_def)
    qed
  qed
qed

lemma String_of_number_exact:
  assumes "0 \<le> v" and "v < 9007199254740992"
  shows "String_of_number (Finite v) = String_of_int v"
proof -
  from assms have "nat v < 2 ^ 53" by simp
  from shortest_from_exact [OF this] have s: "shortest_from 1 (nat v) = nat v" .
  from assms have "nat v < 10 ^ 21" by simp
  with s assms show ?thesis
    by (simp add: String_of_number_def Number_toString_def String_of_int_def Let_def)
qed

lemma number_of_int_exact:
  assumes "\<bar>x\<bar> < 9007199254740992"
  shows "number_of_int x = Finite x"
proof -
  from assms have "nat \<bar>x\<bar> < 2 ^ 53" by simp
  from nearest_double_exact [OF this] have n: "nearest_double (nat \<bar>x\<bar>) = nat \<bar>x\<bar>" .
  have "\<bar>x\<bar> < 2 ^ 1024" using assms by (rule less_trans) simp
  with n show ?thesis by (auto simp: number_of_int_def Let_def)
qed

section \<open>The configuration of an instance\<close>

lemma config_stop: "config (fst (stop (inst, w))) = config inst"
  by (simp add: stop_def stopHealthCheck_def Let_def split: option.splits)

lemma config_start: "config (fst (snd (start exec (inst, w)))) = config inst"
  by (simp add: start_def startHealthCheck_def Let_def split: option.splits sum.splits prod.splits)

lemma config_checkHealth_resume: "config (fst (snd (checkHealth_resume res (inst, w)))) = config inst"
  by (simp add: checkHealth_resume_def Let_def split_beta config_stop split: sum.splits)

lemma config_on_exit: "config (fst (on_exit tab pidPath code signal (inst, w))) = config inst"
  by (simp add: on_exit_def stopHealthCheck_def Let_def)

lemma rpcUrl_config: "config a = config b \<Longrightarrow> rpcUrl a = rpcUrl b"
  by (simp add: rpcUrl_def httpPort_def)

section \<open>Ports of a miner index\<close>

lemma getPorts_exact:
  assumes "1 \<le> i" and "i \<le> 4503599627366223"
  shows "getPorts i = \<lparr> http = Finite (8546 + 2 * (i - 1)), ws = Finite (8547 + 2 * (i - 1)),
                        p2p = Finite (30304 + (i - 1)) \<rparr>"
proof -
  from assms have a: "number_of_int (i - 1) = Finite (i - 1)" by (intro number_of_int_exact) simp
  from assms have b: "number_of_int ((i - 1) * 2) = Finite ((i - 1) * 2)" by (intro number_of_int_exact) simp
  from assms have c: "number_of_int (8546 + (i - 1) * 2) = Finite (8546 + (i - 1) * 2)"
    by (intro number_of_int_exact) simp
  from assms have d: "number_of_int (8547 + (i - 1) * 2) = Finite (8547 + (i - 1) * 2)"
    by (intro number_of_int_exact) simp
  from assms have e: "number_of_int (30304 + (i - 1)) = Finite (30304 + (i - 1))"
    by (intro number_of_int_exact) simp
  have m: "number_minus (Finite i) (Finite 1) = Finite (i - 1)"
    using a by (simp add: number_minus_def)
  show ?thesis
    unfolding getPorts_def Let_def m
    by (simp only: number_times.simps number_plus.simps b c d e) (simp add: mult.commute)
qed


text \<open>
  Claim C1, as the code has it. The ports are computed on doubles. For every miner index
  \<open>i\<close> from 1 to 4503599627366223 (that is \<open>2\<^sup>5\<^sup>2 - 4273\<close>) the arithmetic is exact:
  the port triple is \<open>http = 8546 + 2 (i - 1)\<close>, \<open>ws = 8547 + 2 (i - 1)\<close>,
  \<open>p2p = 30304 + (i - 1)\<close>, and the RPC URL of an instance with that index is
  \<^verbatim>\<open>http://localhost:\<close> followed by the decimal text of the HTTP port. The index that
  the configuration of the instance holds decides them alone: stopping, starting, the
  answer to a health check and the exit of the child leave the URL as it is, and so does an
  update of the configuration that holds no key \<^verbatim>\<open>minerIndex\<close>; an update that holds
  the key gives the instance the ports of the index it brings.
\<close>

theorem ports_of_index:
  assumes "1 \<le> i" and "i \<le> 4503599627366223" and "minerIndex (config inst) = i"
  shows "getPorts i = \<lparr> http = Finite (8546 + 2 * (i - 1)), ws = Finite (8547 + 2 * (i - 1)),
                        p2p = Finite (30304 + (i - 1)) \<rparr>
       \<and> httpPort inst = Finite (8546 + 2 * (i - 1))
       \<and> rpcUrl inst = ''http://localhost:'' @ String_of_int (8546 + 2 * (i - 1))
       \<and> rpcUrl (fst (stop (inst, w))) = rpcUrl inst
       \<and> rpcUrl (fst (snd (start exec (inst, w)))) = rpcUrl inst
       \<and> rpcUrl (fst (snd (checkHealth_resume res (inst, w)))) = rpcUrl inst
       \<and> rpcUrl (fst (on_exit tab pidPath code signal (inst, w))) = rpcUrl inst
       \<and> (p_minerIndex u = None \<longrightarrow> rpcUrl (updateConfig u inst) = rpcUrl inst)
       \<and> (\<forall>j. p_minerIndex u = Some j \<longrightarrow> httpPort (updateConfig u inst) = http (getPorts j))"
proof -
  note ports = getPorts_exact [OF assms(1,2)]
  have port: "httpPort inst = Finite (8546 + 2 * (i - 1))"
    using ports assms(3) by (simp add: httpPort_def)
  from assms(1,2) have "String_of_number (Finite (8546 + 2 * (i - 1))) = String_of_int (8546 + 2 * (i - 1))"
    by (intro String_of_number_exact) simp_all
  with port have url: "rpcUrl inst = ''http://localhost:'' @ String_of_int (8546 + 2 * (i - 1))"
    by (simp add: rpcUrl_def)
  have upd: "p_minerIndex u = None \<longrightarrow> rpcUrl (updateConfig u inst) = rpcUrl inst"
    by (simp add: rpcUrl_def httpPort_def updateConfig_def)
  have upd': "\<forall>j. p_minerIndex u = Some j \<longrightarrow> httpPort (updateConfig u inst) = http (getPorts j)"
    by (simp add: httpPort_def updateConfig_def)
  from ports port url upd upd'
    rpcUrl_config [OF config_stop, of inst w] rpcUrl_config [OF config_start, of exec inst w]
    rpcUrl_config [OF config_checkHealth_resume, of res inst w]
    rpcUrl_config [OF config_on_exit, of tab pidPath code signal inst w]
  show ?thesis by simp
qed

theorem ports_of_index_witness:
  "(1::int) \<le> 2 \<and> (2::int) \<le> 4503599627366223
   \<and> getPorts 2 = \<lparr> http = Finite 8548, ws = Finite 8549, p2p = Finite 30305 \<rparr>
   \<and> rpcUrl (new_MinerInstance \<lparr> minerIndex = 2, gethBinaryPath = ''geth'', minerThreads = None,
         cacheMB = None, etherbase = None \<rparr>) = ''http://localhost:8548''
   \<and> p_minerIndex sample_config = None
   \<and> rpcUrl (updateConfig sample_config (new_MinerInstance \<lparr> minerIndex = 2, gethBinaryPath = ''geth'',
         minerThreads = None, cacheMB = None, etherbase = None \<rparr>)) = ''http://localhost:8548''
   \<and> p_minerIndex (sample_config\<lparr>p_minerIndex := Some 3\<rparr>) = Some 3
   \<and> httpPort (updateConfig (sample_config\<lparr>p_minerIndex := Some 3\<rparr>)
        (new_MinerInstance \<lparr> minerIndex = 2, gethBinaryPath = ''geth'', minerThreads = None,
           cacheMB = None, etherbase = None \<rparr>)) = http (getPorts 3)"
proof -
  let ?inst = "new_MinerInstance \<lparr> minerIndex = 2, gethBinaryPath = ''geth'', minerThreads = None,
         cacheMB = None, etherbase = None \<rparr>"
  have i: "minerIndex (config ?inst) = 2" by (simp add: new_MinerInstance_def)
  have none: "p_minerIndex sample_config = None" by (simp add: sample_config_def)
  have some: "p_minerIndex (sample_config\<lparr>p_minerIndex := Some 3\<rparr>) = Some 3" by simp
  from ports_of_index [of 2 ?inst _ _ _ _ _ _ _ sample_config, OF _ _ i] none
  have a: "getPorts 2 = \<lparr> http = Finite 8548, ws = Finite 8549, p2p = Finite 30305 \<rparr>"
    and b: "rpcUrl ?inst = ''http://localhost:8548''"
    and c: "rpcUrl (updateConfig sample_config ?inst) = ''http://localhost:8548''"
    by (simp_all add: String_of_int_def digits_of.simps digit_char_def)
  from ports_of_index [of 2 ?inst _ _ _ _ _ _ _ "sample_config\<lparr>p_minerIndex := Some 3\<rparr>", OF _ _ i] some
  have d: "httpPort (updateConfig (sample_config\<lparr>p_minerIndex := Some 3\<rparr>) ?inst) = http (getPorts 3)"
    by simp
  from a b c d none some show ?thesis by simp
qed

text \<open>
  The claim as stated is for every index from 1 on. At the index 4503599627366224 the sum
  \<open>8547 + 2 (i - 1)\<close> is \<open>2\<^sup>5\<^sup>3 + 1\<close>, which no double holds: the port \<open>ws\<close> is the
  port \<open>http\<close>. At the index \<open>2\<^sup>5\<^sup>3\<close> the HTTP port is 18014398509490528, and the URL
  prints it as 18014398509490530, the shortest decimal that reads back as that double.
\<close>

theorem ports_beyond_exact_range:
  "getPorts 4503599627366224
     = \<lparr> http = Finite 9007199254740992, ws = Finite 9007199254740992, p2p = Finite 4503599627396527 \<rparr>
   \<and> ws (getPorts 4503599627366224) \<noteq> Finite (8547 + 2 * (4503599627366224 - 1))
   \<and> rpcUrl (new_MinerInstance \<lparr> minerIndex = 9007199254740992, gethBinaryPath = ''geth'',
         minerThreads = None, cacheMB = None, etherbase = None \<rparr>) = ''http://localhost:18014398509490530''
   \<and> String_of_int (8546 + 2 * (9007199254740992 - 1)) = ''18014398509490528''"
proof -
  have ports: "getPorts 4503599627366224
     = \<lparr> http = Finite 9007199254740992, ws = Finite 9007199254740992, p2p = Finite 4503599627396527 \<rparr>"
    by (simp add: getPorts_def number_minus_def number_of_int_def nearest_double_def bit_length.simps Let_def)
  have port: "http (getPorts 9007199254740992) = Finite 18014398509490528"
    by (simp add: getPorts_def number_minus_def number_of_int_def nearest_double_def bit_length.simps Let_def)
  have shown: "String_of_number (Finite 18014398509490528) = ''18014398509490530''"
    by (simp add: String_of_number_def Number_toString_def shortest_from.simps nearest_double_def
        bit_length.simps digits_of.simps digit_char_def Let_def)
  have plain: "String_of_int (8546 + 2 * (9007199254740992 - 1)) = ''18014398509490528''"
    by (simp add: String_of_int_def digits_of.simps digit_char_def)
  from ports port shown plain show ?thesis
    by (simp add: rpcUrl_def httpPort_def new_MinerInstance_def)
qed

section \<open>Formatting a balance\<close>

lemma BigInt_tenth: "BigInt ''0x16345785d8a0000'' = Inr 100000000000000000"
  by (simp add: BigInt_def trim_def ws_prefix_len_def ws_suffix_len_def startsWith_def
      parse_digits_def digit_value_def Let_def)

lemma BigInt_one: "BigInt ''0xde0b6b3a7640000'' = Inr 1000000000000000000"
  by (simp add: BigInt_def trim_def ws_prefix_len_def ws_suffix_len_def startsWith_def
      parse_digits_def digit_value_def Let_def)

lemma String_of_tenth: "String_of_int 100000000000000000 = ''100000000000000000''"
  by (simp add: String_of_int_def digits_of.simps digit_char_def)

lemma String_of_0: "String_of_int 0 = ''0''"
  by (simp add: String_of_int_def digits_of.simps digit_char_def)

lemma String_of_1: "String_of_int 1 = ''1''"
  by (simp add: String_of_int_def digits_of.simps digit_char_def)

lemma bigint_tenth:
  "bigint_div 100000000000000000 1000000000000000000 = 0"
  "bigint_rem 100000000000000000 1000000000000000000 = 100000000000000000"
  by (simp_all add: bigint_div_def bigint_rem_def)

lemma bigint_one:
  "bigint_div 1000000000000000000 1000000000000000000 = 1"
  "bigint_rem 1000000000000000000 1000000000000000000 = 0"
  by (simp_all add: bigint_div_def bigint_rem_def)

lemma weiToMars_tenth: "weiToMars ''0x16345785d8a0000'' = Inr ''0.1''"
  by (simp add: weiToMars_def BigInt_tenth String_of_tenth bigint_tenth String_of_0
      padStart_def strip_trailing_zeros_def Let_def)

lemma weiToMars_one: "weiToMars ''0xde0b6b3a7640000'' = Inr ''1.0''"
  by (simp add: weiToMars_def BigInt_one bigint_one String_of_0 String_of_1
      padStart_def strip_trailing_zeros_def Let_def)

lemma weiToMars_has_fraction: "weiToMars text = Inr r \<Longrightarrow> CHR ''.'' \<in> set r"
  by (auto simp: weiToMars_def Let_def split: sum.splits if_splits)

text \<open>
  Claim C3. \<open>weiToMars\<close> should render one whole coin, \<^verbatim>\<open>0xde0b6b3a7640000\<close> wei, as
  \<^verbatim>\<open>1\<close>, and a tenth of it as \<^verbatim>\<open>0.1\<close>. The code gives \<^verbatim>\<open>1.0\<close> for the first:
  an empty fraction is replaced by \<^verbatim>\<open>0\<close> before the test that would leave the fraction
  out, so that test never fails and a whole amount keeps one zero after the point.
\<close>

theorem weiToMars_whole_coin:
  "weiToMars ''0xde0b6b3a7640000'' = Inr ''1.0'' \<and> weiToMars ''0x16345785d8a0000'' = Inr ''0.1''"
  using weiToMars_one weiToMars_tenth by simp

section \<open>File system and logger\<close>

lemmas fs_defs = existsSync_def mkdirSync_def writeFileSync_def appendFileSync_def readFileSync_def
  readdirSync_def unlinkSync_def chmodSync_def path_join_def join2_def path_prefixes_def
  path_dirname_def path_basename_def getMarsCreditDir_def getLogsDir_def ensureLogDir_def log_def

lemma path_join2: "b \<noteq> ''..'' \<Longrightarrow> path_join [a, b] = a @ ''/'' @ b"
  by (simp add: path_join_def join2_def)

lemma basename_app_log: "path_basename (path_join [d, ''app.log'']) = ''app.log''"
  by (simp add: path_join_def join2_def path_basename_def)

lemma basename_mining_address: "path_basename (path_join [d, ''mining_address.txt'']) = ''mining_address.txt''"
  by (simp add: path_join_def join2_def path_basename_def)

lemma basename_wallet_enc: "path_basename (path_join [d, ''wallet.enc'']) = ''wallet.enc''"
  by (simp add: path_join_def join2_def path_basename_def)

lemma mkdirSync_files: "mkdirSync p w = Inr w' \<Longrightarrow> files w' = files w"
  by (auto simp: mkdirSync_def split: if_splits)

lemma ensureLogDir_files: "files (snd (ensureLogDir w)) = files w"
  by (auto simp: ensureLogDir_def Let_def mkdirSync_def split: option.splits sum.splits if_splits)

lemma ensureLogDir_dir:
  "ensureLogDir w = (Inr d, w1) \<Longrightarrow> d = (case logDir w of Some d' \<Rightarrow> d' | None \<Rightarrow> getLogsDir w)"
  by (auto simp: ensureLogDir_def Let_def split: option.splits sum.splits if_splits)

lemma appendFileSync_other:
  "appendFileSync q line w = Inr w' \<Longrightarrow> p \<noteq> q \<Longrightarrow> map_of (files w') p = map_of (files w) p"
  by (auto simp: appendFileSync_def update_conv' split: if_splits)

lemma log_files_other:
  assumes "path_basename p \<noteq> ''app.log''"
  shows "map_of (files (snd (log level message meta w))) p = map_of (files w) p"
proof (cases "ensureLogDir w")
  case (Pair r w1)
  have f1: "files w1 = files w" using ensureLogDir_files [of w] Pair by simp
  show ?thesis
  proof (cases r)
    case (Inl e)
    with Pair f1 show ?thesis by (simp add: log_def)
  next
    case (Inr d)
    have ne: "p \<noteq> path_join [d, ''app.log'']" using assms basename_app_log by metis
    show ?thesis
    proof (cases "appendFileSync (path_join [d, ''app.log'']) (log_line w level message meta) w1")
      case (Inl e)
      with Pair Inr f1 show ?thesis by (simp add: log_def)
    next
      case (Inr w2)
      with Pair \<open>r = Inr d\<close> f1 appendFileSync_other [OF Inr ne [symmetric, THEN not_sym]] show ?thesis
        by (simp add: log_def)
    qed
  qed
qed


lemma strip_ws_none: "len (map of_char s) = 0 \<Longrightarrow> strip_ws len n s = s"
  by (cases n) simp_all

lemma ws_prefix_len_ascii:
  assumes "a < 128" and "\<not> (9 \<le> a \<and> a \<le> 13)" and "a \<noteq> 32"
  shows "ws_prefix_len (a # bs) = 0"
proof (cases bs)
  case Nil
  with assms show ?thesis by (simp add: ws_prefix_len_def)
next
  case (Cons b r)
  show ?thesis
  proof (cases r)
    case Nil
    with Cons assms show ?thesis by (simp add: ws_prefix_len_def)
  next
    case (Cons c r')
    with \<open>bs = b # r\<close> assms show ?thesis by (simp add: ws_prefix_len_def)
  qed
qed

lemma ws_suffix_len_ascii:
  assumes "a < 128" and "\<not> (9 \<le> a \<and> a \<le> 13)" and "a \<noteq> 32"
  shows "ws_suffix_len (a # bs) = 0"
proof (cases bs)
  case Nil
  with assms show ?thesis by (simp add: ws_suffix_len_def)
next
  case (Cons b r)
  show ?thesis
  proof (cases r)
    case Nil
    with Cons assms show ?thesis by (simp add: ws_suffix_len_def)
  next
    case (Cons c r')
    with \<open>bs = b # r\<close> assms show ?thesis by (simp add: ws_suffix_len_def)
  qed
qed

lemma hex_digit_ascii:
  assumes "is_hex_digit c"
  shows "(of_char c :: nat) < 128" and "\<not> (9 \<le> (of_char c :: nat) \<and> (of_char c :: nat) \<le> 13)"
    and "(of_char c :: nat) \<noteq> 32"
  using assms by (auto simp: is_hex_digit_def Let_def)

lemma valid_address_shape:
  assumes "isValidAddress a"
  obtains r where "a = CHR ''0'' # CHR ''x'' # r" and "r \<noteq> []" and "list_all is_hex_digit r"
proof -
  from assms have len: "length a = 42" and pre: "take 2 a = ''0x''" and hex: "list_all is_hex_digit (drop 2 a)"
    by (simp_all add: isValidAddress_def)
  have "a = take 2 a @ drop 2 a" by simp
  with pre have a: "a = CHR ''0'' # CHR ''x'' # drop 2 a" by simp
  from len have "length (drop 2 a) = 40" by simp
  then have "drop 2 a \<noteq> []" by auto
  with a hex show thesis using that by blast
qed

lemma trim_valid_address:
  assumes "isValidAddress a"
  shows "trim a = a"
proof -
  from assms obtain r where a: "a = CHR ''0'' # CHR ''x'' # r" and r: "r \<noteq> []" and hex: "list_all is_hex_digit r"
    by (rule valid_address_shape)
  have "ws_prefix_len (map of_char a) = 0"
    by (simp add: a ws_prefix_len_ascii)
  then have front: "strip_ws ws_prefix_len (length a) a = a"
    by (rule strip_ws_none)
  from r have rv: "rev a = last r # rev (butlast a)"
    by (simp add: a)
  from hex r have "is_hex_digit (last r)" by (simp add: list_all_iff)
  then have "ws_suffix_len (map of_char (rev a)) = 0"
    by (simp add: rv ws_suffix_len_ascii hex_digit_ascii)
  then have rear: "strip_ws ws_suffix_len (length a) (rev a) = rev a"
    by (rule strip_ws_none)
  show ?thesis by (simp add: trim_def Let_def front rear)
qed


lemma mkdirSync_homedir: "mkdirSync p w = Inr w' \<Longrightarrow> homedir w' = homedir w"
  by (auto simp: mkdirSync_def split: if_splits)

lemma writeFileSync_homedir: "writeFileSync p t w = Inr w' \<Longrightarrow> homedir w' = homedir w"
  by (auto simp: writeFileSync_def split: if_splits)

lemma appendFileSync_homedir: "appendFileSync p t w = Inr w' \<Longrightarrow> homedir w' = homedir w"
  by (auto simp: appendFileSync_def split: if_splits)

lemma ensureLogDir_homedir: "homedir (snd (ensureLogDir w)) = homedir w"
  by (auto simp: ensureLogDir_def Let_def mkdirSync_def split: option.splits sum.splits if_splits)

lemma log_homedir: "homedir (snd (log level message meta w)) = homedir w"
proof (cases "ensureLogDir w")
  case (Pair r w1)
  then have h: "homedir w1 = homedir w" using ensureLogDir_homedir [of w] by simp
  with Pair show ?thesis
    by (auto simp: log_def dest: appendFileSync_homedir split: sum.splits)
qed

lemma writeFileSync_read: "writeFileSync p t w = Inr w' \<Longrightarrow> map_of (files w') p = Some t"
  by (auto simp: writeFileSync_def update_conv' split: if_splits)

lemma ensureLogDir_logDir: "logDir (snd (ensureLogDir w)) \<noteq> None"
  by (auto simp: ensureLogDir_def Let_def mkdirSync_def split: option.splits sum.splits if_splits)

lemma appendFileSync_Inr:
  "appendFileSync p t w = Inr w' \<Longrightarrow>
     w' = w\<lparr>files := AList.update p ((case map_of (files w) p of None \<Rightarrow> [] | Some old \<Rightarrow> old) @ t) (files w)\<rparr>"
  by (auto simp: appendFileSync_def split: if_splits)

lemma log_logDir: "logDir (snd (log level message meta w)) \<noteq> None"
proof (cases "ensureLogDir w")
  case (Pair r w1)
  then have "logDir w1 \<noteq> None" using ensureLogDir_logDir [of w] by simp
  with Pair show ?thesis
    by (auto simp: log_def dest!: appendFileSync_Inr split: sum.splits)
qed

lemma ensureLogDir_settled: "logDir w = Some d \<Longrightarrow> ensureLogDir w = (Inr d, w)"
  by (simp add: ensureLogDir_def)

lemma log_settled:
  assumes "logDir w \<noteq> None"
  shows "fst (log level message meta w) = Inr ()"
    and "dirs (snd (log level message meta w)) = dirs w"
    and "modes (snd (log level message meta w)) = modes w"
    and "logDir (snd (log level message meta w)) = logDir w"
  using assms
  by (auto simp: log_def ensureLogDir_settled dest!: appendFileSync_Inr split: sum.splits)

lemma ensureLogDir_dirs:
  "set (dirs (snd (ensureLogDir w))) \<subseteq> set (dirs w) \<union> set (path_prefixes (getLogsDir w))"
  by (auto simp: ensureLogDir_def Let_def mkdirSync_def split: option.splits sum.splits if_splits)

lemma ensureLogDir_dirs_mono: "set (dirs w) \<subseteq> set (dirs (snd (ensureLogDir w)))"
  by (auto simp: ensureLogDir_def Let_def mkdirSync_def split: option.splits sum.splits if_splits)

lemma ensureLogDir_frame:
  "spawned (snd (ensureLogDir w)) = spawned w \<and> terminated (snd (ensureLogDir w)) = terminated w
   \<and> emitted (snd (ensureLogDir w)) = emitted w \<and> modes (snd (ensureLogDir w)) = modes w"
  by (auto simp: ensureLogDir_def Let_def mkdirSync_def split: option.splits sum.splits if_splits)

lemma log_dirs:
  "set (dirs (snd (log level message meta w))) \<subseteq> set (dirs w) \<union> set (path_prefixes (getLogsDir w))"
proof (cases "ensureLogDir w")
  case (Pair r w1)
  with ensureLogDir_dirs [of w] show ?thesis
    by (auto simp: log_def dest!: appendFileSync_Inr split: sum.splits)
qed

lemma log_dirs_mono: "set (dirs w) \<subseteq> set (dirs (snd (log level message meta w)))"
proof (cases "ensureLogDir w")
  case (Pair r w1)
  with ensureLogDir_dirs_mono [of w] show ?thesis
    by (auto simp: log_def dest!: appendFileSync_Inr split: sum.splits)
qed

lemma log_frame:
  "spawned (snd (log level message meta w)) = spawned w
   \<and> terminated (snd (log level message meta w)) = terminated w
   \<and> emitted (snd (log level message meta w)) = emitted w
   \<and> modes (snd (log level message meta w)) = modes w"
proof (cases "ensureLogDir w")
  case (Pair r w1)
  with ensureLogDir_frame [of w] show ?thesis
    by (auto simp: log_def dest!: appendFileSync_Inr split: sum.splits)
qed

lemma key_of_entry: "(a, b) \<in> set xs \<Longrightarrow> a \<in> fst ` set xs"
  by force

lemma log_files_mono: "fst ` set (files w) \<subseteq> fst ` set (files (snd (log level message meta w)))"
proof (cases "ensureLogDir w")
  case (Pair r w1)
  with ensureLogDir_files [of w] have "files w1 = files w" by simp
  with Pair show ?thesis
    by (auto simp: log_def dom_update dest!: appendFileSync_Inr dest: key_of_entry split: sum.splits)
qed

lemma log_exists: "existsSync p w \<Longrightarrow> existsSync p (snd (log level message meta w))"
  using log_dirs_mono [of w level message meta] log_files_mono [of w level message meta]
  by (auto simp: existsSync_def)


section \<open>Address-only mode\<close>

text \<open>
  Claim C8. For every text that does not match \<^verbatim>\<open>^0x[0-9a-fA-F]{40}$\<close>,
  \<open>setAddressOnly\<close> throws the invalid-address error and leaves the world exactly as it
  was: no directory made, no file written, nothing logged.
\<close>

theorem setAddressOnly_rejects:
  assumes "\<not> isValidAddress a"
  shows "setAddressOnly a w = (Inl InvalidAddress, w)"
  using assms by (simp add: setAddressOnly_def)

theorem setAddressOnly_rejects_witness:
  "\<not> isValidAddress ''0x000000000000000000000000000000000000dEaG''
   \<and> setAddressOnly ''0x000000000000000000000000000000000000dEaG'' sample_host = (Inl InvalidAddress, sample_host)"
  using setAddressOnly_rejects [of "''0x000000000000000000000000000000000000dEaG''" sample_host]
  by (simp add: isValidAddress_def is_hex_digit_def)

text \<open>
  Claim C6. For every address that \<open>setAddressOnly\<close> accepts (it matches the pattern and
  the call returns), \<open>getStoredMiningAddress\<close> afterwards returns exactly that address,
  with or without a miner index and whatever the keystore of that miner holds: the address
  file is read first.
\<close>

theorem stored_address_after_set:
  assumes "isValidAddress a" and "setAddressOnly a w = (Inr (), w')"
  shows "getStoredMiningAddress parse index w' = Inr (Some a)"
proof -
  let ?P = "path_join [getMarsCreditDir w, ''mining_address.txt'']"
  from assms obtain w1 w2 where
    mk: "mkdirSync (getMarsCreditDir w) w = Inr w1" and
    wr: "writeFileSync ?P a w1 = Inr w2" and
    lg: "log Info ''Address-only mining address set'' [(''address'', JString a)] w2 = (Inr (), w')"
    by (auto simp: setAddressOnly_def Let_def split: sum.splits)
  have home: "homedir w' = homedir w"
    using log_homedir [of Info "''Address-only mining address set''" "[(''address'', JString a)]" w2]
      lg mkdirSync_homedir [OF mk] writeFileSync_homedir [OF wr] by simp
  have "path_basename ?P \<noteq> ''app.log''"
    by (simp add: basename_mining_address)
  then have "map_of (files w') ?P = map_of (files w2) ?P"
    using log_files_other [of ?P Info "''Address-only mining address set''" "[(''address'', JString a)]" w2] lg
    by simp
  with writeFileSync_read [OF wr] have rd: "map_of (files w') ?P = Some a" by simp
  then have ex: "existsSync ?P w'"
    by (auto simp: existsSync_def dest: map_of_SomeD intro: rev_image_eqI)
  from rd have "readFileSync ?P w' = Inr a" by (simp add: readFileSync_def)
  with ex home show ?thesis
    by (simp add: getStoredMiningAddress_def getMarsCreditDir_def Let_def trim_valid_address [OF assms(1)])
qed

lemma sample_keystore_address:
  "getStoredMiningAddress sample_parse (Some 1) sample_keystore_host
     = Inr (Some ''0x00000000000000000000000000000000000000aa'')"
  by (simp add: getStoredMiningAddress_def keystore_address_def getMinerKeystoreDir_def getMinerDataDir_def
       sample_keystore_host_def sample_host_def sample_parse_def startsWith_def fs_defs Let_def
       String_of_number_exact String_of_int_def digits_of.simps digit_char_def)

lemma sample_setAddressOnly:
  "fst (setAddressOnly ''0x000000000000000000000000000000000000dEaD'' sample_keystore_host) = Inr ()"
  by (simp add: setAddressOnly_def isValidAddress_def is_hex_digit_def
       sample_keystore_host_def sample_host_def fs_defs Let_def)

lemma sample_address_valid: "isValidAddress ''0x000000000000000000000000000000000000dEaD''"
  by (simp add: isValidAddress_def is_hex_digit_def)

theorem stored_address_after_set_witness:
  "isValidAddress ''0x000000000000000000000000000000000000dEaD''
   \<and> fst (setAddressOnly ''0x000000000000000000000000000000000000dEaD'' sample_keystore_host) = Inr ()
   \<and> getStoredMiningAddress sample_parse (Some 1) sample_keystore_host
        = Inr (Some ''0x00000000000000000000000000000000000000aa'')
   \<and> getStoredMiningAddress sample_parse (Some 1)
        (snd (setAddressOnly ''0x000000000000000000000000000000000000dEaD'' sample_keystore_host))
        = Inr (Some ''0x000000000000000000000000000000000000dEaD'')"
proof -
  let ?a = "''0x000000000000000000000000000000000000dEaD''"
  have run: "setAddressOnly ?a sample_keystore_host = (Inr (), snd (setAddressOnly ?a sample_keystore_host))"
    using sample_setAddressOnly by (metis prod.collapse)
  from stored_address_after_set [OF sample_address_valid run, of sample_parse "Some 1"]
  show ?thesis
    using sample_address_valid sample_setAddressOnly sample_keystore_address by simp
qed

section \<open>Genesis initialization\<close>

lemma run_geth_init_logDir:
  assumes "run_geth_init exec bin dataDir genesis w = (Inr (), w')"
  shows "logDir w' \<noteq> None"
proof -
  have never: "fst (genesis_init_failed err v) \<noteq> Inr ()" for err v
    by (simp add: genesis_init_failed_def split: prod.splits sum.splits)
  from assms obtain w1 where
    "log Info ''Genesis initialization successful'' [(''dataDir'', JString dataDir)] w1 = (Inr (), w')"
    using never by (auto simp: run_geth_init_def split: sum.splits prod.splits) (metis fst_conv)+
  then show ?thesis
    using log_logDir [of Info "''Genesis initialization successful''" "[(''dataDir'', JString dataDir)]" w1]
    by simp
qed

lemma initMinerDataDir_logDir:
  assumes "initMinerDataDir exec bin i gp w = (Inr (), w')"
  shows "logDir w' \<noteq> None"
proof (cases "existsSync (path_join [getMinerDataDir i w, CHAINDATA_DIR]) w")
  case True
  with assms have "w' = snd (log Debug ''Chaindata exists, skipping genesis init''
      [(''dataDir'', JString (getMinerDataDir i w))] w)"
    by (simp add: initMinerDataDir_def Let_def)
  then show ?thesis by (simp add: log_logDir)
next
  case False
  with assms obtain dataDir genesis w4 where "run_geth_init exec bin dataDir genesis w4 = (Inr (), w')"
    by (auto simp: initMinerDataDir_def Let_def split: sum.splits prod.splits if_splits)
  then show ?thesis by (rule run_geth_init_logDir)
qed

text \<open>
  Claim C5, as the code has it. When \<^verbatim>\<open>miners/<i>/geth/chaindata\<close> exists,
  \<open>initMinerDataDir\<close> does one thing: it writes the debug line
  \<^verbatim>\<open>Chaindata exists, skipping genesis init\<close> to the supervisor's log, which on the
  logger's first use creates the log directory. The command runner, the binary and the genesis
  path do not enter: \<^verbatim>\<open>geth init\<close> is not invoked. No directory other than the log
  directory and its parents appears, no file other than \<^verbatim>\<open>app.log\<close> changes, the chain
  data stays. Once the logger has its directory, and so after any run that returned, the
  call returns and leaves the directories untouched: a second run after a successful first
  run changes nothing but the log.
\<close>

theorem initMinerDataDir_when_initialized:
  assumes "existsSync (path_join [getMinerDataDir i w, CHAINDATA_DIR]) w"
  shows "initMinerDataDir exec bin i gp w
           = log Debug ''Chaindata exists, skipping genesis init'' [(''dataDir'', JString (getMinerDataDir i w))] w
       \<and> initMinerDataDir exec bin i gp w = initMinerDataDir exec' bin' i gp' w
       \<and> (let w' = snd (initMinerDataDir exec bin i gp w)
          in set (dirs w) \<subseteq> set (dirs w')
           \<and> set (dirs w') \<subseteq> set (dirs w) \<union> set (path_prefixes (getLogsDir w))
           \<and> (\<forall>p. path_basename p \<noteq> ''app.log'' \<longrightarrow> map_of (files w') p = map_of (files w) p)
           \<and> modes w' = modes w
           \<and> spawned w' = spawned w
           \<and> existsSync (path_join [getMinerDataDir i w, CHAINDATA_DIR]) w'
           \<and> (logDir w \<noteq> None \<longrightarrow> fst (initMinerDataDir exec bin i gp w) = Inr () \<and> dirs w' = dirs w)
           \<and> (\<forall>exec0 bin0 gp0 w0. initMinerDataDir exec0 bin0 i gp0 w0 = (Inr (), w)
                 \<longrightarrow> fst (initMinerDataDir exec bin i gp w) = Inr () \<and> dirs w' = dirs w))"
proof -
  let ?log = "log Debug ''Chaindata exists, skipping genesis init'' [(''dataDir'', JString (getMinerDataDir i w))] w"
  have eq: "\<And>e b g. initMinerDataDir e b i g w = ?log"
    using assms by (simp add: initMinerDataDir_def Let_def)
  have settled: "logDir w \<noteq> None \<Longrightarrow> fst ?log = Inr () \<and> dirs (snd ?log) = dirs w"
    by (simp add: log_settled)
  have again: "\<And>exec0 bin0 gp0 w0. initMinerDataDir exec0 bin0 i gp0 w0 = (Inr (), w)
                 \<Longrightarrow> fst ?log = Inr () \<and> dirs (snd ?log) = dirs w"
    using initMinerDataDir_logDir settled by blast
  show ?thesis
    unfolding eq Let_def
    using log_dirs_mono [of w] log_dirs [of Debug _ _ w] log_files_other [of _ Debug _ _ w]
      log_frame [of Debug _ _ w] log_exists [OF assms] settled again
    by blast
qed


lemmas init_defs = initMinerDataDir_def run_geth_init_def genesis_init_failed_def host_command_def
  geth_init_command_def error_message_def
  getGenesisPath_def getMinerDataDir_def CHAINDATA_DIR_def String_of_number_exact String_of_int_def digits_of.simps digit_char_def
  fs_defs Let_def

lemma sample_first_run:
  "fst (initMinerDataDir sample_geth_init ''/home/miner/.marscredit/bin/geth'' 1 None sample_host) = Inr ()"
  by (simp add: init_defs sample_host_def sample_geth_init_def)

lemma sample_first_run_chaindata:
  "existsSync ''/home/miner/.marscredit/miners/1/geth/chaindata''
     (snd (initMinerDataDir sample_geth_init ''/home/miner/.marscredit/bin/geth'' 1 None sample_host))"
  by (simp add: init_defs sample_host_def sample_geth_init_def)

lemma sample_first_run_homedir:
  "homedir (snd (initMinerDataDir sample_geth_init ''/home/miner/.marscredit/bin/geth'' 1 None sample_host))
     = ''/home/miner''"
  by (simp add: init_defs sample_host_def sample_geth_init_def)

theorem initMinerDataDir_when_initialized_witness:
  "fst (initMinerDataDir sample_geth_init ''/home/miner/.marscredit/bin/geth'' 1 None sample_host) = Inr ()
   \<and> (let w1 = snd (initMinerDataDir sample_geth_init ''/home/miner/.marscredit/bin/geth'' 1 None sample_host)
      in existsSync (path_join [getMinerDataDir 1 w1, CHAINDATA_DIR]) w1
       \<and> fst (initMinerDataDir failing_geth_init ''/home/miner/.marscredit/bin/geth'' 1 None w1) = Inr ()
       \<and> dirs (snd (initMinerDataDir failing_geth_init ''/home/miner/.marscredit/bin/geth'' 1 None w1)) = dirs w1)"
proof -
  let ?g = "''/home/miner/.marscredit/bin/geth''"
  let ?w1 = "snd (initMinerDataDir sample_geth_init ?g 1 None sample_host)"
  have path: "path_join [getMinerDataDir 1 ?w1, CHAINDATA_DIR] = ''/home/miner/.marscredit/miners/1/geth/chaindata''"
    by (simp add: getMinerDataDir_def getMarsCreditDir_def sample_first_run_homedir CHAINDATA_DIR_def
        path_join_def join2_def String_of_number_exact String_of_int_def digits_of.simps digit_char_def)
  have ex: "existsSync (path_join [getMinerDataDir 1 ?w1, CHAINDATA_DIR]) ?w1"
    unfolding path by (rule sample_first_run_chaindata)
  have first: "initMinerDataDir sample_geth_init ?g 1 None sample_host = (Inr (), ?w1)"
    using sample_first_run by (metis prod.collapse)
  from initMinerDataDir_when_initialized [OF ex, of failing_geth_init ?g None] first
  have "fst (initMinerDataDir failing_geth_init ?g 1 None ?w1) = Inr ()
      \<and> dirs (snd (initMinerDataDir failing_geth_init ?g 1 None ?w1)) = dirs ?w1"
    unfolding Let_def by blast
  with sample_first_run ex show ?thesis unfolding Let_def by blast
qed

text \<open>
  The claim as stated (no action at all, no directory creation) fails on a host that has
  the chain data and no log directory: the call creates \<^verbatim>\<open>.marscredit/logs\<close>.
\<close>

theorem initMinerDataDir_makes_log_directory:
  "existsSync (path_join [getMinerDataDir 1 sample_synced_host, CHAINDATA_DIR]) sample_synced_host
   \<and> dirs (snd (initMinerDataDir failing_geth_init ''/home/miner/.marscredit/bin/geth'' 1 None sample_synced_host))
       = dirs sample_synced_host @ [''/home/miner/.marscredit/logs'']
   \<and> dirs (snd (initMinerDataDir failing_geth_init ''/home/miner/.marscredit/bin/geth'' 1 None sample_synced_host))
       \<noteq> dirs sample_synced_host"
  by (simp add: init_defs sample_synced_host_def sample_host_def)

section \<open>Starting an instance that owns a child\<close>

text \<open>
  Claim C7, as the code has it. For every miner instance that already owns a child process,
  \<open>start\<close> logs the warning \<^verbatim>\<open>MinerInstance already running\<close> and does nothing
  else: the instance is left as it is, no child is spawned and none is signalled, so the
  instance still owns the one child it had. The call does not fail: its result is the
  result of the logging call, which is a normal return once the logger has its directory.
\<close>

theorem start_when_owned:
  assumes "process inst \<noteq> None"
  shows "start exec (inst, w)
           = (fst (log Warn ''MinerInstance already running'' [(''minerIndex'', JNumber (minerIndex (config inst)))] w),
              inst,
              snd (log Warn ''MinerInstance already running'' [(''minerIndex'', JNumber (minerIndex (config inst)))] w))
       \<and> fst (snd (start exec (inst, w))) = inst
       \<and> spawned (snd (snd (start exec (inst, w)))) = spawned w
       \<and> terminated (snd (snd (start exec (inst, w)))) = terminated w
       \<and> (logDir w \<noteq> None \<longrightarrow> fst (start exec (inst, w)) = Inr ())"
proof -
  let ?log = "log Warn ''MinerInstance already running'' [(''minerIndex'', JNumber (minerIndex (config inst)))] w"
  have eq: "start exec (inst, w) = (fst ?log, inst, snd ?log)"
    using assms by (simp add: start_def Let_def split: prod.splits)
  show ?thesis
    unfolding eq using log_frame [of Warn _ _ w] log_settled(1) [of w Warn] by simp
qed

theorem start_when_owned_witness:
  "process sample_running_instance \<noteq> None
   \<and> fst (snd (start failing_geth_init (sample_running_instance, sample_host))) = sample_running_instance
   \<and> spawned (snd (snd (start failing_geth_init (sample_running_instance, sample_host)))) = spawned sample_host"
proof -
  have owned: "process sample_running_instance \<noteq> None"
    by (simp add: sample_running_instance_def)
  from start_when_owned [OF owned, of failing_geth_init sample_host] owned
  show ?thesis by blast
qed

text \<open>
  The claim as stated says that this call fails. On the sample host it returns normally.
\<close>

theorem start_when_owned_returns_normally:
  "process sample_running_instance \<noteq> None
   \<and> fst (start failing_geth_init (sample_running_instance, sample_host)) = Inr ()"
  by (simp add: start_def sample_running_instance_def sample_host_def fs_defs Let_def)

section \<open>Tab indices\<close>


lemma keys_getOrCreateInstance:
  "fst ` set (instances (snd (getOrCreateInstance i cfg svc))) = insert i (fst ` set (instances svc))"
  by (auto simp: getOrCreateInstance_def Let_def dom_update split: option.splits dest: map_of_SomeD key_of_entry)















section \<open>Removing a tab\<close>

lemma cache_keys_getOrCreateInstance:
  "fst ` set (configCache (snd (getOrCreateInstance i cfg svc))) = insert i (fst ` set (configCache svc))"
  by (auto simp: getOrCreateInstance_def Let_def dom_update split: option.splits)

lemma cwr_getOrCreateInstance:
  "cache_within_registry svc \<Longrightarrow> cache_within_registry (snd (getOrCreateInstance i cfg svc))"
  unfolding cache_within_registry_def cache_keys_getOrCreateInstance keys_getOrCreateInstance by blast

lemma cwr_update:
  "cache_within_registry svc \<Longrightarrow> cache_within_registry (svc\<lparr>instances := AList.update i inst (instances svc)\<rparr>)"
  by (auto simp: cache_within_registry_def dom_update)

lemma dom_delete: "fst ` set (AList.delete k al) = fst ` set al - {k}"
proof -
  have "set (map fst (AList.delete k al)) = set (removeAll k (map fst al))"
    by (simp only: delete_keys)
  then show ?thesis by simp
qed

lemma cwr_removeTab:
  "cache_within_registry svc \<Longrightarrow> cache_within_registry (fst (removeTab i (svc, w)))"
  by (auto simp: cache_within_registry_def removeTab_def dom_delete split: option.splits)

lemma cwr_stopMiner:
  "cache_within_registry (fst s) \<Longrightarrow> cache_within_registry (fst (stopMiner i s))"
  by (cases s) (auto simp: stopMiner_def cwr_update split: option.splits prod.splits)

lemma cwr_fold_stopMiner:
  "cache_within_registry (fst s) \<Longrightarrow> cache_within_registry (fst (fold stopMiner js s))"
  by (induction js arbitrary: s) (simp_all add: cwr_stopMiner)

lemma cwr_startMiner:
  assumes "cache_within_registry svc"
  shows "cache_within_registry (fst (snd (startMiner exec i cfg (svc, w))))"
proof -
  obtain inst svc1 where g: "getOrCreateInstance i cfg svc = (inst, svc1)" by (cases "getOrCreateInstance i cfg svc")
  with cwr_getOrCreateInstance [OF assms, of i cfg] have c1: "cache_within_registry svc1" by simp
  then have "\<And>inst1. cache_within_registry (svc1\<lparr>instances := AList.update i inst1 (instances svc1)\<rparr>)"
    by (rule cwr_update)
  with c1 g show ?thesis
    by (auto simp: startMiner_def Let_def split: prod.splits sum.splits)
qed

lemma reachable_cache_within_registry:
  "reachable s \<Longrightarrow> cache_within_registry (fst s)"
proof (induction s rule: reachable.induct)
  case (r_new w)
  then show ?case by (simp add: cache_within_registry_def new_MinerService_def)
next
  case (r_setGethPath svc w path)
  then show ?case by (simp add: cache_within_registry_def setGethPath_def)
next
  case (r_getOrCreateInstance svc w i cfg)
  then show ?case by (simp add: cwr_getOrCreateInstance)
next
  case (r_addTab svc w cfg)
  then show ?case by (simp add: addTab_def Let_def cwr_getOrCreateInstance)
next
  case (r_removeTab svc w i)
  then show ?case by (simp add: cwr_removeTab)
next
  case (r_startMiner svc w exec i cfg)
  then show ?case by (simp add: cwr_startMiner)
next
  case (r_stopMiner svc w i)
  then show ?case by (simp add: cwr_stopMiner)
next
  case (r_stopAll svc w)
  then show ?case by (simp add: stopAll_def cwr_fold_stopMiner)
next
  case (r_checkHealth svc w i inst res r inst' w')
  then show ?case by (simp add: cwr_update)
next
  case (r_on_exit svc w i inst pidPath code signal inst' w')
  then show ?case by (simp add: cwr_update)
next
  case (r_spawn_failure svc w i inst errno err r inst' w')
  then show ?case by (simp add: cwr_update)
next
  case (r_on_error svc w i inst err r inst' w')
  then show ?case by (simp add: cwr_update)
qed


lemma removeTab_erases:
  assumes "cache_within_registry svc"
  shows "map_of (instances (fst (removeTab i (svc, w)))) i = None"
    and "map_of (configCache (fst (removeTab i (svc, w)))) i = None"
    and "gethPath (fst (removeTab i (svc, w))) = gethPath svc"
proof -
  show "map_of (instances (fst (removeTab i (svc, w)))) i = None"
    by (simp add: removeTab_def delete_conv' split: option.splits)
  show "gethPath (fst (removeTab i (svc, w))) = gethPath svc"
    by (simp add: removeTab_def split: option.splits)
  show "map_of (configCache (fst (removeTab i (svc, w)))) i = None"
  proof (cases "map_of (instances svc) i")
    case None
    then have "i \<notin> fst ` set (instances svc)" by (simp add: map_of_eq_None_iff)
    with assms have "i \<notin> fst ` set (configCache svc)" by (auto simp: cache_within_registry_def)
    then have "map_of (configCache svc) i = None" by (simp add: map_of_eq_None_iff)
    with None show ?thesis by (simp add: removeTab_def)
  next
    case (Some inst)
    then show ?thesis by (simp add: removeTab_def delete_conv')
  qed
qed

lemma getOrCreateInstance_fresh:
  assumes "map_of (instances svc) i = None" and "map_of (configCache svc) i = None"
  shows "getOrCreateInstance i None svc =
           (new_MinerInstance \<lparr> minerIndex = i, gethBinaryPath = gethPath svc, minerThreads = Some 1,
                                 cacheMB = Some 4096, etherbase = None \<rparr>,
            svc\<lparr>configCache := AList.update i default_config (configCache svc),
                instances := AList.update i
                  (new_MinerInstance \<lparr> minerIndex = i, gethBinaryPath = gethPath svc, minerThreads = Some 1,
                                        cacheMB = Some 4096, etherbase = None \<rparr>) (instances svc)\<rparr>)"
  using assms
  by (simp add: getOrCreateInstance_def cached_or_default_def default_config_def nullish_def optional_def Let_def)

lemma startMiner_fresh:
  assumes "map_of (instances svc) i = None" and "map_of (configCache svc) i = None"
  shows "map_option config (map_of (instances (fst (snd (startMiner exec i None (svc, w))))) i)
           = Some \<lparr> minerIndex = i, gethBinaryPath = gethPath svc, minerThreads = Some 1,
                     cacheMB = Some 4096, etherbase = None \<rparr>"
    and "map_of (configCache (fst (snd (startMiner exec i None (svc, w))))) i = Some default_config"
proof -
  let ?c = "\<lparr> minerIndex = i, gethBinaryPath = gethPath svc, minerThreads = Some 1,
                cacheMB = Some 4096, etherbase = None \<rparr>"
  let ?inst = "new_MinerInstance ?c"
  let ?svc1 = "svc\<lparr>configCache := AList.update i default_config (configCache svc),
                    instances := AList.update i ?inst (instances svc)\<rparr>"
  have g: "getOrCreateInstance i None svc = (?inst, ?svc1)"
    by (rule getOrCreateInstance_fresh [OF assms])
  have nr: "\<not> isRunning ?inst" by (simp add: isRunning_def new_MinerInstance_def)
  obtain r inst1 w1 where st: "start exec (?inst, w) = (r, inst1, w1)"
    by (cases "start exec (?inst, w)") auto
  with config_start [of exec ?inst w] have c: "config inst1 = ?c" by (simp add: new_MinerInstance_def)
  have sm: "fst (snd (startMiner exec i None (svc, w))) = ?svc1\<lparr>instances := AList.update i inst1 (instances ?svc1)\<rparr>"
    using g nr st by (auto simp: startMiner_def Let_def split: sum.splits)
  show "map_option config (map_of (instances (fst (snd (startMiner exec i None (svc, w))))) i) = Some ?c"
    unfolding sm using c by (simp add: update_conv')
  show "map_of (configCache (fst (snd (startMiner exec i None (svc, w))))) i = Some default_config"
    unfolding sm by (simp add: update_conv')
qed


text \<open>
  Claim C10. In every state the service can reach, \<open>removeTab i\<close> erases the instance
  and the remembered configuration of index \<open>i\<close>: afterwards \<open>getMinerState i\<close> is
  \<^verbatim>\<open>null\<close>, and \<open>getOrCreateInstance\<close> or \<open>startMiner\<close> at \<open>i\<close> without a
  configuration builds the instance with the defaults, one thread, a cache of 4096 MB and no
  etherbase, whatever was remembered before.
\<close>

theorem removeTab_forgets:
  assumes "reachable (svc, w)"
  shows "getMinerState i (fst (removeTab i (svc, w))) = None
       \<and> map_of (configCache (fst (removeTab i (svc, w)))) i = None
       \<and> config (fst (getOrCreateInstance i None (fst (removeTab i (svc, w)))))
           = \<lparr> minerIndex = i, gethBinaryPath = gethPath svc, minerThreads = Some 1,
               cacheMB = Some 4096, etherbase = None \<rparr>
       \<and> map_option s_config (getMinerState i (snd (getOrCreateInstance i None (fst (removeTab i (svc, w))))))
           = Some default_config
       \<and> map_option config (map_of (instances (fst (snd (startMiner exec i None (removeTab i (svc, w)))))) i)
           = Some \<lparr> minerIndex = i, gethBinaryPath = gethPath svc, minerThreads = Some 1,
                    cacheMB = Some 4096, etherbase = None \<rparr>
       \<and> map_option s_config (getMinerState i (fst (snd (startMiner exec i None (removeTab i (svc, w))))))
           = Some default_config"
proof -
  from reachable_cache_within_registry [OF assms] have inv: "cache_within_registry svc" by simp
  obtain svc' w' where rm: "removeTab i (svc, w) = (svc', w')" by (cases "removeTab i (svc, w)")
  from removeTab_erases [OF inv, of i w] rm
  have ni: "map_of (instances svc') i = None" and nc: "map_of (configCache svc') i = None"
    and gp: "gethPath svc' = gethPath svc" by simp_all
  have a: "getMinerState i svc' = None" by (simp add: getMinerState_def ni)
  note g = getOrCreateInstance_fresh [OF ni nc]
  have b: "config (fst (getOrCreateInstance i None svc'))
             = \<lparr> minerIndex = i, gethBinaryPath = gethPath svc, minerThreads = Some 1,
                 cacheMB = Some 4096, etherbase = None \<rparr>"
    by (simp add: g gp new_MinerInstance_def)
  have c: "map_option s_config (getMinerState i (snd (getOrCreateInstance i None svc'))) = Some default_config"
    by (simp add: g getMinerState_def cached_or_default_def update_conv')
  note s = startMiner_fresh [OF ni nc, of exec w']
  have d: "map_option s_config (getMinerState i (fst (snd (startMiner exec i None (svc', w'))))) = Some default_config"
    using s by (auto simp: getMinerState_def cached_or_default_def split: option.splits)
  show ?thesis
    unfolding rm using a nc b c s(1) d by (simp add: gp)
qed

lemmas sample_service_defs = addTab_def getOrCreateInstance_def getTabIndices_def removeTab_def
  new_MinerService_def cached_or_default_def default_config_def nullish_def optional_def field_value_def
  new_MinerInstance_def updateConfig_def spread_def getMinerState_def sample_config_def Let_def

lemma sample_tab_remembered:
  "map_option s_config (getMinerState 1 (snd (addTab (Some sample_config) (new_MinerService sample_host))))
     = Some \<lparr> c_minerThreads = 4, c_cacheMB = 8192,
               c_etherbase = Some ''0x000000000000000000000000000000000000dEaD'' \<rparr>"
  by (simp add: sample_service_defs)

theorem removeTab_forgets_witness:
  "reachable (snd (addTab (Some sample_config) (new_MinerService sample_host)), sample_host)
   \<and> map_option s_config (getMinerState 1 (snd (addTab (Some sample_config) (new_MinerService sample_host))))
       = Some \<lparr> c_minerThreads = 4, c_cacheMB = 8192,
                 c_etherbase = Some ''0x000000000000000000000000000000000000dEaD'' \<rparr>
   \<and> getMinerState 1 (fst (removeTab 1 (snd (addTab (Some sample_config) (new_MinerService sample_host)), sample_host)))
       = None
   \<and> map_option s_config (getMinerState 1 (snd (getOrCreateInstance 1 None
         (fst (removeTab 1 (snd (addTab (Some sample_config) (new_MinerService sample_host)), sample_host))))))
       = Some \<lparr> c_minerThreads = 1, c_cacheMB = 4096, c_etherbase = None \<rparr>"
proof -
  have r: "reachable (snd (addTab (Some sample_config) (new_MinerService sample_host)), sample_host)"
    by (rule r_addTab) (rule r_new)
  from removeTab_forgets [OF r, of 1 failing_geth_init] r sample_tab_remembered
  show ?thesis by (simp add: default_config_def)
qed

section \<open>The health check\<close>

lemma stop_idle: "process inst = None \<Longrightarrow> stop (inst, w) = (inst, w)"
  by (simp add: stop_def)

lemma stop_effect:
  assumes "process inst = Some proc"
  shows "process (fst (stop (inst, w))) = None"
    and "healthFailures (fst (stop (inst, w))) = healthFailures inst"
    and "logDir (snd (stop (inst, w))) = logDir w"
    and "terminated (snd (stop (inst, w))) = terminated w @ [proc]"
  using assms
  by (auto simp: stop_def stopHealthCheck_def remove_pid_file_def unlinkSync_def Let_def
      split: option.splits sum.splits if_splits)

lemma resume_ok:
  "checkHealth_resume (Responded True) (inst, w) = (Inr NoAction, inst\<lparr>healthFailures := 0\<rparr>, w)"
  by (simp add: checkHealth_resume_def)

lemma resume_counts:
  "failed res \<Longrightarrow> healthFailures inst + 1 < 3 \<Longrightarrow>
     checkHealth_resume res (inst, w) = (Inr NoAction, inst\<lparr>healthFailures := healthFailures inst + 1\<rparr>, w)"
  by (simp add: checkHealth_resume_def failed_def maxHealthFailures_def Let_def)

lemma resume_stops:
  assumes "failed res" and "3 \<le> healthFailures inst + 1" and "logDir w \<noteq> None"
  shows "fst (checkHealth_resume res (inst, w)) = Inr InvokedStop"
    and "process (fst (snd (checkHealth_resume res (inst, w)))) = None"
    and "healthFailures (fst (snd (checkHealth_resume res (inst, w)))) = healthFailures inst + 1"
    and "logDir (snd (snd (checkHealth_resume res (inst, w)))) \<noteq> None"
    and "terminated (snd (snd (checkHealth_resume res (inst, w))))
           = terminated w @ (case process inst of None \<Rightarrow> [] | Some proc \<Rightarrow> [proc])"
proof -
  let ?inst1 = "inst\<lparr>healthFailures := healthFailures inst + 1\<rparr>"
  let ?log = "log Warn ''MinerInstance health check failed repeatedly, stopping''
                [(''minerIndex'', JNumber (minerIndex (config ?inst1))),
                 (''failures'', JNumber (int (healthFailures ?inst1)))] w"
  obtain w1 where lg: "?log = (Inr (), w1)"
    using log_settled(1) [OF assms(3)] by (metis prod.collapse)
  then have w1: "w1 = snd ?log" by simp
  have ld: "logDir w1 \<noteq> None" unfolding w1 by (rule log_logDir)
  have tm: "terminated w1 = terminated w" unfolding w1 using log_frame [of Warn _ _ w] by simp
  have eq: "checkHealth_resume res (inst, w) = (Inr InvokedStop, stop (?inst1, w1))"
    using assms(1,2) lg
    by (simp add: checkHealth_resume_def failed_def maxHealthFailures_def Let_def split: prod.splits)
  show "fst (checkHealth_resume res (inst, w)) = Inr InvokedStop" by (simp add: eq)
  show "process (fst (snd (checkHealth_resume res (inst, w)))) = None"
    using stop_effect(1) [of ?inst1 _ w1] stop_idle [of ?inst1 w1]
    by (cases "process inst") (simp_all add: eq)
  show "healthFailures (fst (snd (checkHealth_resume res (inst, w)))) = healthFailures inst + 1"
    using stop_effect(2) [of ?inst1 _ w1] stop_idle [of ?inst1 w1]
    by (cases "process inst") (simp_all add: eq)
  show "logDir (snd (snd (checkHealth_resume res (inst, w)))) \<noteq> None"
    using stop_effect(3) [of ?inst1 _ w1] stop_idle [of ?inst1 w1] ld
    by (cases "process inst") (simp_all add: eq)
  show "terminated (snd (snd (checkHealth_resume res (inst, w))))
           = terminated w @ (case process inst of None \<Rightarrow> [] | Some proc \<Rightarrow> [proc])"
    using stop_effect(4) [of ?inst1 _ w1] stop_idle [of ?inst1 w1] tm
    by (cases "process inst") (simp_all add: eq)
qed

lemma resume_step:
  assumes "logDir w \<noteq> None"
  shows "fst (checkHealth_resume res (inst, w))
           = Inr (if failed res \<and> 3 \<le> healthFailures inst + 1 then InvokedStop else NoAction)"
    and "healthFailures (fst (snd (checkHealth_resume res (inst, w))))
           = (if failed res then healthFailures inst + 1 else 0)"
    and "logDir (snd (snd (checkHealth_resume res (inst, w)))) \<noteq> None"
proof -
  consider (ok) "\<not> failed res" | (count) "failed res" "healthFailures inst + 1 < 3"
    | (halt) "failed res" "3 \<le> healthFailures inst + 1"
    by linarith
  then have "fst (checkHealth_resume res (inst, w))
           = Inr (if failed res \<and> 3 \<le> healthFailures inst + 1 then InvokedStop else NoAction)
     \<and> healthFailures (fst (snd (checkHealth_resume res (inst, w))))
           = (if failed res then healthFailures inst + 1 else 0)
     \<and> logDir (snd (snd (checkHealth_resume res (inst, w)))) \<noteq> None"
  proof cases
    case ok
    then have "res = Responded True" by (simp add: failed_def)
    with assms ok show ?thesis by (simp add: resume_ok)
  next
    case count
    with assms show ?thesis by (simp add: resume_counts)
  next
    case halt
    with resume_stops(1,3,4) [OF halt assms] show ?thesis by simp
  qed
  then show "fst (checkHealth_resume res (inst, w))
           = Inr (if failed res \<and> 3 \<le> healthFailures inst + 1 then InvokedStop else NoAction)"
    and "healthFailures (fst (snd (checkHealth_resume res (inst, w))))
           = (if failed res then healthFailures inst + 1 else 0)"
    and "logDir (snd (snd (checkHealth_resume res (inst, w)))) \<noteq> None"
    by simp_all
qed

lemma resume_idle:
  assumes "process inst = None"
  shows "process (fst (snd (checkHealth_resume res (inst, w)))) = None"
    and "terminated (snd (snd (checkHealth_resume res (inst, w)))) = terminated w"
  using assms
  by (simp_all add: checkHealth_resume_def Let_def split_beta stop_idle log_frame split: sum.splits)

lemma timer_tick_Some:
  assumes "timer_tick (n, inst, w) = Some s1"
  obtains n1 where "s1 = (n1, inst, w)"
  using assms by (auto simp: timer_tick_def split: if_splits option.splits)

lemma probe_answer_Some:
  assumes "probe_answer res (n, inst, w) = Some (a, s1)"
  obtains m where "n = Suc m"
    and "a = fst (checkHealth_resume res (inst, w))"
    and "s1 = (m, snd (checkHealth_resume res (inst, w)))"
  using assms by (auto simp: probe_answer_def split: nat.splits prod.splits)

lemma health_run_Tick:
  assumes "health_run (Tick # evs) (n, inst, w) = Some (acts, s')"
  obtains n1 where "health_run evs (n1, inst, w) = Some (acts, s')"
proof -
  from assms obtain s1 where t: "timer_tick (n, inst, w) = Some s1" and r: "health_run evs s1 = Some (acts, s')"
    by (auto split: option.splits)
  from t obtain n1 where "s1 = (n1, inst, w)" by (rule timer_tick_Some)
  with r that show ?thesis by simp
qed

lemma health_run_Answer:
  assumes "health_run (Answer res # evs) (n, inst, w) = Some (acts, s')"
  obtains m as where "n = Suc m"
    and "acts = fst (checkHealth_resume res (inst, w)) # as"
    and "health_run evs (m, snd (checkHealth_resume res (inst, w))) = Some (as, s')"
proof -
  from assms obtain a s1 as where p: "probe_answer res (n, inst, w) = Some (a, s1)"
    and r: "health_run evs s1 = Some (as, s')" and acts: "acts = a # as"
    by (auto split: option.splits prod.splits)
  from p obtain m where "n = Suc m" "a = fst (checkHealth_resume res (inst, w))"
    "s1 = (m, snd (checkHealth_resume res (inst, w)))"
    by (rule probe_answer_Some)
  with r acts that show ?thesis by simp
qed

lemma window_Cons:
  "(\<forall>j\<le>Suc k. Suc k \<le> j + 2 \<longrightarrow> F ((p # ps) ! j)) = ((k \<le> 1 \<longrightarrow> F p) \<and> (\<forall>j\<le>k. k \<le> j + 2 \<longrightarrow> F (ps ! j)))"
proof
  assume l: "\<forall>j\<le>Suc k. Suc k \<le> j + 2 \<longrightarrow> F ((p # ps) ! j)"
  show "(k \<le> 1 \<longrightarrow> F p) \<and> (\<forall>j\<le>k. k \<le> j + 2 \<longrightarrow> F (ps ! j))"
  proof (intro conjI impI allI)
    assume "k \<le> 1"
    with l [rule_format, of 0] show "F p" by simp
  next
    fix j assume "j \<le> k" "k \<le> j + 2"
    with l [rule_format, of "Suc j"] show "F (ps ! j)" by simp
  qed
next
  assume r: "(k \<le> 1 \<longrightarrow> F p) \<and> (\<forall>j\<le>k. k \<le> j + 2 \<longrightarrow> F (ps ! j))"
  show "\<forall>j\<le>Suc k. Suc k \<le> j + 2 \<longrightarrow> F ((p # ps) ! j)"
  proof (intro allI impI)
    fix j assume "j \<le> Suc k" "Suc k \<le> j + 2"
    with r show "F ((p # ps) ! j)" by (cases j) auto
  qed
qed

lemma health_run_trace:
  assumes "logDir w \<noteq> None" and "health_run evs (n, inst, w) = Some (acts, s')"
  shows "length acts = length (answers evs)
       \<and> (\<forall>k<length (answers evs).
             ((acts ! k = Inr InvokedStop) =
                ((\<forall>j\<le>k. k \<le> j + 2 \<longrightarrow> failed (answers evs ! j)) \<and> 2 \<le> k + healthFailures inst))
           \<and> (acts ! k = Inr InvokedStop \<or> acts ! k = Inr NoAction))"
  using assms
proof (induction evs arbitrary: n inst w acts rule: answers.induct)
  case 1
  then show ?case by simp
next
  case (2 evs)
  from "2.prems"(2) obtain n1 where "health_run evs (n1, inst, w) = Some (acts, s')"
    by (rule health_run_Tick)
  from "2.IH" [OF "2.prems"(1) this] show ?case unfolding answers.simps .
next
  case (3 res evs)
  let ?r = "checkHealth_resume res (inst, w)"
  from "3.prems"(2) obtain m as where n: "n = Suc m" and acts: "acts = fst ?r # as"
    and run: "health_run evs (m, snd ?r) = Some (as, s')"
    by (rule health_run_Answer)
  obtain inst1 w1 where s1: "snd ?r = (inst1, w1)" by (cases "snd ?r")
  note st = resume_step [OF "3.prems"(1), of res inst]
  from st(3) s1 have ld: "logDir w1 \<noteq> None" by simp
  from st(2) s1 have c1: "healthFailures inst1 = (if failed res then healthFailures inst + 1 else 0)" by simp
  from run s1 have run1: "health_run evs (m, inst1, w1) = Some (as, s')" by simp
  note ih = "3.IH" [OF ld run1]
  from ih have len: "length as = length (answers evs)" by simp
  show ?case
  proof (intro conjI allI impI)
    show "length acts = length (answers (Answer res # evs))" using len acts by simp
  next
    fix k assume k: "k < length (answers (Answer res # evs))"
    show "(acts ! k = Inr InvokedStop) =
            ((\<forall>j\<le>k. k \<le> j + 2 \<longrightarrow> failed (answers (Answer res # evs) ! j)) \<and> 2 \<le> k + healthFailures inst)"
    proof (cases k)
      case 0
      with st(1) acts show ?thesis by auto
    next
      case (Suc k')
      with k have k': "k' < length (answers evs)" by simp
      from ih k' have "(as ! k' = Inr InvokedStop) =
            ((\<forall>j\<le>k'. k' \<le> j + 2 \<longrightarrow> failed (answers evs ! j)) \<and> 2 \<le> k' + healthFailures inst1)"
        by simp
      then show ?thesis
        unfolding Suc acts answers.simps window_Cons c1 by auto
    qed
  next
    fix k assume k: "k < length (answers (Answer res # evs))"
    show "acts ! k = Inr InvokedStop \<or> acts ! k = Inr NoAction"
    proof (cases k)
      case 0
      with st(1) acts show ?thesis by auto
    next
      case (Suc k')
      with k have k': "k' < length (answers evs)" by simp
      with ih have "as ! k' = Inr InvokedStop \<or> as ! k' = Inr NoAction" by blast
      with acts Suc show ?thesis by simp
    qed
  qed
qed

lemma health_run_logDir:
  assumes "logDir w \<noteq> None" and "health_run evs (n, inst, w) = Some (acts, n', inst', w')"
  shows "logDir w' \<noteq> None"
  using assms
proof (induction evs arbitrary: n inst w acts rule: answers.induct)
  case 1
  then show ?case by simp
next
  case (2 evs)
  from "2.prems"(2) obtain n1 where "health_run evs (n1, inst, w) = Some (acts, n', inst', w')"
    by (rule health_run_Tick)
  from "2.IH" [OF "2.prems"(1) this] show ?case .
next
  case (3 res evs)
  let ?r = "checkHealth_resume res (inst, w)"
  from "3.prems"(2) obtain m as where run: "health_run evs (m, snd ?r) = Some (as, n', inst', w')"
    by (rule health_run_Answer)
  obtain inst1 w1 where s1: "snd ?r = (inst1, w1)" by (cases "snd ?r")
  with resume_step(3) [OF "3.prems"(1), of res inst] have "logDir w1 \<noteq> None" by simp
  with "3.IH" [of w1 m inst1 as] run s1 show ?case by simp
qed

lemma health_run_idle:
  assumes "process inst = None" and "health_run evs (n, inst, w) = Some (acts, n', inst', w')"
  shows "process inst' = None \<and> terminated w' = terminated w"
  using assms
proof (induction evs arbitrary: n inst w acts rule: answers.induct)
  case 1
  then show ?case by simp
next
  case (2 evs)
  from "2.prems"(2) obtain n1 where "health_run evs (n1, inst, w) = Some (acts, n', inst', w')"
    by (rule health_run_Tick)
  from "2.IH" [OF "2.prems"(1) this] show ?case .
next
  case (3 res evs)
  let ?r = "checkHealth_resume res (inst, w)"
  from "3.prems"(2) obtain m as where run: "health_run evs (m, snd ?r) = Some (as, n', inst', w')"
    by (rule health_run_Answer)
  obtain inst1 w1 where s1: "snd ?r = (inst1, w1)" by (cases "snd ?r")
  with resume_idle [OF "3.prems"(1), of res w] have "process inst1 = None" "terminated w1 = terminated w"
    by simp_all
  with "3.IH" [of inst1 m w1 as] run s1 show ?case by simp
qed

lemma health_run_final:
  assumes "process inst = Some proc" and "exitCode proc = None" and "healthFailures inst \<le> 2"
    and "logDir w \<noteq> None" and "health_run evs (n, inst, w) = Some (acts, n', inst', w')"
  shows "(Inr InvokedStop \<in> set acts \<longrightarrow> process inst' = None \<and> terminated w' = terminated w @ [proc])
       \<and> (Inr InvokedStop \<notin> set acts \<longrightarrow>
            process inst' = Some proc \<and> healthFailures inst' \<le> 2 \<and> terminated w' = terminated w)
       \<and> logDir w' \<noteq> None"
  using assms
proof (induction evs arbitrary: n inst w acts rule: answers.induct)
  case 1
  then show ?case by simp
next
  case (2 evs)
  from "2.prems"(5) obtain n1 where "health_run evs (n1, inst, w) = Some (acts, n', inst', w')"
    by (rule health_run_Tick)
  from "2.IH" [OF "2.prems"(1-4) this] show ?case .
next
  case (3 res evs)
  let ?r = "checkHealth_resume res (inst, w)"
  from "3.prems"(5) obtain m as where acts: "acts = fst ?r # as"
    and run: "health_run evs (m, snd ?r) = Some (as, n', inst', w')"
    by (rule health_run_Answer)
  consider (ok) "\<not> failed res" | (count) "failed res" "healthFailures inst + 1 < 3"
    | (halt) "failed res" "3 \<le> healthFailures inst + 1"
    by linarith
  then show ?case
  proof cases
    case ok
    then have res: "res = Responded True" by (simp add: failed_def)
    from run have run1: "health_run evs (m, inst\<lparr>healthFailures := 0\<rparr>, w) = Some (as, n', inst', w')"
      by (simp add: res resume_ok)
    from "3.IH" [OF _ "3.prems"(2) _ "3.prems"(4) run1] "3.prems"(1)
    show ?thesis by (simp add: acts res resume_ok)
  next
    case count
    from run count have run1: "health_run evs (m, inst\<lparr>healthFailures := healthFailures inst + 1\<rparr>, w)
        = Some (as, n', inst', w')"
      by (simp add: resume_counts)
    from "3.IH" [OF _ "3.prems"(2) _ "3.prems"(4) run1] "3.prems"(1) count
    show ?thesis by (simp add: acts resume_counts)
  next
    case halt
    note st = resume_stops [OF halt "3.prems"(4)]
    obtain inst1 w1 where s1: "snd ?r = (inst1, w1)" by (cases "snd ?r")
    with st(2,5) "3.prems"(1) have idle: "process inst1 = None" and tm: "terminated w1 = terminated w @ [proc]"
      by simp_all
    from run s1 have run1: "health_run evs (m, inst1, w1) = Some (as, n', inst', w')" by simp
    from health_run_idle [OF idle run1] tm
    have fin: "process inst' = None" "terminated w' = terminated w @ [proc]" by simp_all
    from st(4) s1 have "logDir w1 \<noteq> None" by simp
    from health_run_logDir [OF this run1] have ld: "logDir w' \<noteq> None" .
    from fin st(1) ld show ?thesis by (simp add: acts)
  qed
qed


lemma answers_are_possible:
  "length ps \<le> n \<Longrightarrow> health_run (map Answer ps) (n, inst, w) \<noteq> None"
proof (induction ps arbitrary: n inst w)
  case Nil
  then show ?case by simp
next
  case (Cons p ps)
  then obtain m where n: "n = Suc m" and m: "length ps \<le> m" by (cases n) auto
  obtain a inst1 w1 where r: "checkHealth_resume p (inst, w) = (a, inst1, w1)"
    by (cases "checkHealth_resume p (inst, w)")
  from Cons.IH [OF m, of inst1 w1] show ?case
    by (auto simp: n probe_answer_def r)
qed

text \<open>
  Claim C4. Take a running instance as \<open>start\<close> leaves it: it owns a child that was
  spawned and has not exited, the failure counter is 0, the logger has its directory; some
  checks may wait for their answer. Let the timer call and the waiting checks be answered,
  in any order that is possible, checks overlapping as they may. Every answer is counted
  (\<open>acts\<close> has one entry for each), and none throws. The answer number \<open>k\<close> calls
  \<open>stop\<close> exactly when it and the two answers before it report a failure: never before
  three consecutive failures, and at the third. The instance is running at the end exactly
  when no answer has called \<open>stop\<close>; its counter is then at most 2, so that the next
  answer calls \<open>stop\<close> exactly when it is a failure that brings the counter to 3. The
  child is sent the termination signal once: a check that was waiting when \<open>stop\<close> was
  called counts on when it is answered and calls \<open>stop\<close> again, which finds no child.
  In one step, whatever the instance, \<open>stop\<close> is called exactly when the probe failed
  and the counter reaches 3 or more, and a probe answered with a 2xx status sets the
  counter to 0.
\<close>

theorem health_check_stops_after_three:
  assumes "process inst = Some proc" and "pid proc \<noteq> None" and "exitCode proc = None"
    and "healthFailures inst = 0" and "logDir w \<noteq> None"
    and "health_run evs (n, inst, w) = Some (acts, n', inst', w')"
    and "k < length (answers evs)"
  shows "length acts = length (answers evs)
       \<and> ((acts ! k = Inr InvokedStop) =
            (2 \<le> k \<and> failed (answers evs ! (k - 2)) \<and> failed (answers evs ! (k - 1)) \<and> failed (answers evs ! k)))
       \<and> (acts ! k = Inr InvokedStop \<or> acts ! k = Inr NoAction)
       \<and> (isRunning inst' = (Inr InvokedStop \<notin> set acts))
       \<and> (isRunning inst' \<longrightarrow>
            healthFailures inst' \<le> 2
            \<and> (\<forall>res. (fst (checkHealth_resume res (inst', w')) = Inr InvokedStop)
                       = (failed res \<and> healthFailures inst' + 1 = 3)))
       \<and> terminated w' = (if Inr InvokedStop \<in> set acts then terminated w @ [proc] else terminated w)
       \<and> (\<forall>inst0 w0 res. logDir w0 \<noteq> None \<longrightarrow>
             (fst (checkHealth_resume res (inst0, w0)) = Inr InvokedStop)
               = (failed res \<and> 3 \<le> healthFailures inst0 + 1))
       \<and> (\<forall>inst0 w0. checkHealth_resume (Responded True) (inst0, w0)
                         = (Inr NoAction, inst0\<lparr>healthFailures := 0\<rparr>, w0))"
proof -
  have window: "(\<forall>j\<le>k. k \<le> j + 2 \<longrightarrow> failed (ps ! j)) = (failed (ps ! (k - 2)) \<and> failed (ps ! (k - 1)) \<and> failed (ps ! k))"
    if "2 \<le> k" for ps
  proof
    assume a: "\<forall>j\<le>k. k \<le> j + 2 \<longrightarrow> failed (ps ! j)"
    from that a [rule_format, of "k - 2"] a [rule_format, of "k - 1"] a [rule_format, of k]
    show "failed (ps ! (k - 2)) \<and> failed (ps ! (k - 1)) \<and> failed (ps ! k)" by simp
  next
    assume b: "failed (ps ! (k - 2)) \<and> failed (ps ! (k - 1)) \<and> failed (ps ! k)"
    show "\<forall>j\<le>k. k \<le> j + 2 \<longrightarrow> failed (ps ! j)"
    proof (intro allI impI)
      fix j assume "j \<le> k" "k \<le> j + 2"
      then have "j = k - 2 \<or> j = k - 1 \<or> j = k" by linarith
      with b show "failed (ps ! j)" by auto
    qed
  qed
  note tr = health_run_trace [OF assms(5,6)]
  from tr have len: "length acts = length (answers evs)" by simp
  from tr assms(7) have "(acts ! k = Inr InvokedStop) =
      ((\<forall>j\<le>k. k \<le> j + 2 \<longrightarrow> failed (answers evs ! j)) \<and> 2 \<le> k + healthFailures inst)"
    by blast
  with window [of "answers evs"] assms(4)
  have trace: "(acts ! k = Inr InvokedStop) =
      (2 \<le> k \<and> failed (answers evs ! (k - 2)) \<and> failed (answers evs ! (k - 1)) \<and> failed (answers evs ! k))"
    by auto
  from tr assms(7) have clean: "acts ! k = Inr InvokedStop \<or> acts ! k = Inr NoAction" by blast
  from assms(4) have le: "healthFailures inst \<le> 2" by simp
  note fin = health_run_final [OF assms(1,3) le assms(5,6)]
  have running: "isRunning inst' = (Inr InvokedStop \<notin> set acts)"
    using fin assms(3) by (cases "Inr InvokedStop \<in> set acts") (simp_all add: isRunning_def)
  have step: "(fst (checkHealth_resume res (inst0, w0)) = Inr InvokedStop) = (failed res \<and> 3 \<le> healthFailures inst0 + 1)"
    if "logDir w0 \<noteq> None" for inst0 w0 res
    using resume_step(1) [OF that, of res inst0] by simp
  have next_step: "healthFailures inst' \<le> 2
            \<and> (\<forall>res. (fst (checkHealth_resume res (inst', w')) = Inr InvokedStop)
                       = (failed res \<and> healthFailures inst' + 1 = 3))"
    if "isRunning inst'"
  proof -
    from that running fin have c: "healthFailures inst' \<le> 2" and ld: "logDir w' \<noteq> None" by simp_all
    from c have "(3 \<le> healthFailures inst' + 1) = (healthFailures inst' + 1 = 3)" by linarith
    with step [OF ld, of _ inst'] c show ?thesis by simp
  qed
  have sent: "terminated w' = (if Inr InvokedStop \<in> set acts then terminated w @ [proc] else terminated w)"
    using fin by simp
  from len trace clean running next_step sent step resume_ok show ?thesis by blast
qed

text \<open>
  \<open>start\<close> leaves an instance that owns a child whose exit code is not set, with a
  counter of 0, the timer set and the logger settled: the state the theorem starts from
  when the child was spawned. When the spawn has failed, the host reports it before the
  timer calls for the first time; from then on the instance keeps the child without
  running, and the guard ends every check.
\<close>

lemma write_pid_file_logDir: "write_pid_file proc p w = Inr w' \<Longrightarrow> logDir w' = logDir w"
  by (auto simp: write_pid_file_def writeFileSync_def split: option.splits if_splits)

lemma start_establishes:
  assumes "start exec (inst0, w0) = (Inr (), inst, w)" and "process inst0 = None"
  shows "\<exists>proc. process inst = Some proc \<and> exitCode proc = None
           \<and> healthFailures inst = 0 \<and> healthCheckTimer inst \<and> logDir w \<noteq> None"
proof -
  let ?c = "config inst0"
  from assms obtain w2 w3 w5 where
    lg: "log Info ''Spawning Geth''
           [(''minerIndex'', JNumber (minerIndex ?c)), (''args'', JStrings (take 15 (geth_args ?c w2)))] w2 = (Inr (), w3)"
    and wp: "write_pid_file (fst (spawn (gethBinaryPath ?c) (geth_args ?c w2) w3))
               (getMinerPidPath (minerIndex ?c) (snd (spawn (gethBinaryPath ?c) (geth_args ?c w2) w3)))
               (snd (spawn (gethBinaryPath ?c) (geth_args ?c w2) w3)) = Inr w5"
    and res: "inst = startHealthCheck (inst0\<lparr>process := Some (fst (spawn (gethBinaryPath ?c) (geth_args ?c w2) w3))\<rparr>)"
             "w = w5"
    by (auto simp: start_def Let_def split: sum.splits prod.splits)
  from lg have "logDir w3 \<noteq> None" using log_logDir [of Info _ _ w2] by (metis snd_conv)
  then have "logDir (snd (spawn (gethBinaryPath ?c) (geth_args ?c w2) w3)) \<noteq> None"
    by (simp add: spawn_def)
  with write_pid_file_logDir [OF wp] res(2) have "logDir w \<noteq> None" by simp
  moreover from res(1) have "exitCode (fst (spawn (gethBinaryPath ?c) (geth_args ?c w2) w3)) = None"
    "process inst = Some (fst (spawn (gethBinaryPath ?c) (geth_args ?c w2) w3))"
    "healthFailures inst = 0" "healthCheckTimer inst"
    by (simp_all add: startHealthCheck_def spawn_def)
  ultimately show ?thesis by simp
qed

lemma failed_spawn_is_reported:
  assumes "process inst = Some proc" and "pid proc = None" and "exitCode proc = None"
  shows "spawn_failure errno err (inst, w) \<noteq> None"
  using assms by (simp add: spawn_failure_def)

lemma failed_spawn_is_not_checked:
  assumes "spawn_failure errno err (inst, w) = Some (r, inst', w')"
  shows "\<not> isRunning inst'" and "checkHealth_begin inst' = None" and "process inst' \<noteq> None"
    and "healthFailures inst' = healthFailures inst"
    and "healthCheckTimer inst' \<Longrightarrow> timer_tick (n, inst', w') = Some (n, inst', w')"
  using assms
  by (auto simp: spawn_failure_def on_error_def isRunning_def checkHealth_begin_def timer_tick_def
      split: option.splits if_splits prod.splits sum.splits)

lemmas health_defs = health_run.simps timer_tick_def probe_answer_def checkHealth_begin_def
  checkHealth_resume_def isRunning_def failed_def maxHealthFailures_def
  stop_def stopHealthCheck_def remove_pid_file_def getMinerPidPath_def getMinerDataDir_def
  String_of_number_exact String_of_int_def digits_of.simps digit_char_def fs_defs Let_def

lemma sample_health_run:
  "map_option fst
     (health_run [Tick, Tick, Answer Threw, Tick, Answer (Responded True), Tick, Tick,
                  Answer (Responded False), Answer Threw, Tick, Answer Threw, Answer Threw]
        (0, sample_running_instance, sample_logging_host))
     = Some [Inr NoAction, Inr NoAction, Inr NoAction, Inr NoAction, Inr InvokedStop, Inr InvokedStop]"
  by (simp add: health_defs sample_running_instance_def sample_logging_host_def sample_host_def)

lemma sample_quiet_run:
  "map_option (\<lambda>(acts, n, inst, w). (acts, isRunning inst, healthFailures inst))
     (health_run [Tick, Tick, Answer Threw, Answer Threw] (0, sample_running_instance, sample_logging_host))
     = Some ([Inr NoAction, Inr NoAction], True, 2)"
  by (simp add: health_defs sample_running_instance_def sample_logging_host_def sample_host_def)

text \<open>
  Five checks wait while the child is wedged, and all of them fail: the third, the fourth
  and the fifth answer call \<open>stop\<close>, the counter ends at 5, the child is signalled once.
\<close>

lemma checks_in_flight_count_on:
  "map_option (\<lambda>(acts, n, inst, w). (acts, n, healthFailures inst, process inst, terminated w))
     (health_run [Tick, Tick, Tick, Tick, Tick, Answer Threw, Answer Threw, Answer Threw, Answer Threw, Answer Threw]
        (0, sample_running_instance, sample_logging_host))
     = Some ([Inr NoAction, Inr NoAction, Inr InvokedStop, Inr InvokedStop, Inr InvokedStop], 0, 5, None,
             [\<lparr> pid = Some 4000, exitCode = None \<rparr>])"
  by (simp add: health_defs sample_running_instance_def sample_logging_host_def sample_host_def)

theorem health_check_stops_after_three_witness:
  "process sample_running_instance = Some \<lparr> pid = Some 4000, exitCode = None \<rparr>
   \<and> healthFailures sample_running_instance = 0
   \<and> logDir sample_logging_host \<noteq> None
   \<and> (4::nat) < length (answers [Tick, Tick, Answer Threw, Tick, Answer (Responded True), Tick, Tick,
                  Answer (Responded False), Answer Threw, Tick, Answer Threw, Answer Threw])
   \<and> map_option (\<lambda>r. fst r ! 4)
       (health_run [Tick, Tick, Answer Threw, Tick, Answer (Responded True), Tick, Tick,
                    Answer (Responded False), Answer Threw, Tick, Answer Threw, Answer Threw]
          (0, sample_running_instance, sample_logging_host)) = Some (Inr InvokedStop)
   \<and> map_option (\<lambda>r. fst r ! 3)
       (health_run [Tick, Tick, Answer Threw, Tick, Answer (Responded True), Tick, Tick,
                    Answer (Responded False), Answer Threw, Tick, Answer Threw, Answer Threw]
          (0, sample_running_instance, sample_logging_host)) = Some (Inr NoAction)
   \<and> (1::nat) < length (answers [Tick, Tick, Answer Threw, Answer Threw])
   \<and> map_option (\<lambda>(acts, n, inst, w). (isRunning inst, fst (checkHealth_resume Threw (inst, w))))
       (health_run [Tick, Tick, Answer Threw, Answer Threw] (0, sample_running_instance, sample_logging_host))
       = Some (True, Inr InvokedStop)"
proof -
  let ?evs = "[Tick, Tick, Answer Threw, Tick, Answer (Responded True), Tick, Tick,
               Answer (Responded False), Answer Threw, Tick, Answer Threw, Answer Threw]"
  let ?quiet = "[Tick, Tick, Answer Threw, Answer Threw]"
  let ?proc = "\<lparr> pid = Some 4000, exitCode = None \<rparr>"
  have h1: "process sample_running_instance = Some ?proc"
    by (simp add: sample_running_instance_def)
  have h2: "pid ?proc \<noteq> None" and h3: "exitCode ?proc = None" by simp_all
  have h4: "healthFailures sample_running_instance = 0"
    by (simp add: sample_running_instance_def)
  have h5: "logDir sample_logging_host \<noteq> None"
    by (simp add: sample_logging_host_def)
  have h7: "(4::nat) < length (answers ?evs)" by simp
  have q7: "(1::nat) < length (answers ?quiet)" by simp
  from sample_health_run obtain n' inst' w' where
    run: "health_run ?evs (0, sample_running_instance, sample_logging_host)
            = Some ([Inr NoAction, Inr NoAction, Inr NoAction, Inr NoAction, Inr InvokedStop, Inr InvokedStop],
                    n', inst', w')"
    by (auto simp: map_option_eq_Some)
  have "failed (answers ?evs ! (4 - 2)) \<and> failed (answers ?evs ! (4 - 1)) \<and> failed (answers ?evs ! 4)"
    by (simp add: failed_def)
  with health_check_stops_after_three [OF h1 h2 h3 h4 h5 run h7]
  have stop: "[Inr NoAction, Inr NoAction, Inr NoAction, Inr NoAction, Inr InvokedStop, Inr InvokedStop] ! 4
                = (Inr InvokedStop :: error + health_action)"
    by simp
  from sample_quiet_run obtain m i2 w2 where
    quiet: "health_run ?quiet (0, sample_running_instance, sample_logging_host)
              = Some ([Inr NoAction, Inr NoAction], m, i2, w2)"
    and c2: "healthFailures i2 = 2"
    by (auto simp: map_option_eq_Some)
  note q = health_check_stops_after_three [OF h1 h2 h3 h4 h5 quiet q7]
  from q have run2: "isRunning i2" by simp
  with q have "(fst (checkHealth_resume Threw (i2, w2)) = Inr InvokedStop) = (failed Threw \<and> healthFailures i2 + 1 = 3)"
    by blast
  with c2 have next2: "fst (checkHealth_resume Threw (i2, w2)) = Inr InvokedStop"
    by (simp add: failed_def)
  from h1 h4 h5 h7 q7 run stop quiet run2 next2 show ?thesis by simp
qed

section \<open>The mnemonic store\<close>

subsection \<open>The key and Base64\<close>

lemma length_xor_key: "length (xor_key buf key) = length buf"
  by (simp add: xor_key_def)

lemma nth_xor_key:
  "i < length buf \<Longrightarrow>
     xor_key buf key ! i = (if length key = 0 then buf ! i else buf ! i XOR key ! (i mod length key))"
  by (simp add: xor_key_def nth_enumerate_eq)

lemma xor_key_twice: "xor_key (xor_key buf key) key = buf"
proof (rule nth_equalityI)
  show "length (xor_key (xor_key buf key) key) = length buf"
    by (simp add: length_xor_key)
next
  fix i assume "i < length (xor_key (xor_key buf key) key)"
  then have i: "i < length buf" by (simp add: length_xor_key)
  then show "xor_key (xor_key buf key) key ! i = buf ! i"
    by (simp add: nth_xor_key length_xor_key xor.assoc)
qed

lemma base64_alphabet_inverse:
  "list_all (\<lambda>n. unbase64 (base64_char n) = Some n \<and> base64_char n \<noteq> CHR ''='') [0..<64]"
  by (simp add: upt_rec [of _ "numeral _"] upt_rec [of 0] unbase64_def base64_char_def base64_alphabet_def)


lemma unbase64_char: "n < 64 \<Longrightarrow> unbase64 (base64_char n) = Some n"
  using base64_alphabet_inverse by (simp add: list_all_iff)

lemma base64_char_not_pad: "n < 64 \<Longrightarrow> base64_char n \<noteq> CHR ''=''"
  using base64_alphabet_inverse by (simp add: list_all_iff)

lemma sextet_bounds:
  fixes a b c :: nat
  assumes "a < 256" and "b < 256" and "c < 256"
  shows "a div 4 < 64" and "a mod 4 * 16 + b div 16 < 64" and "b mod 16 * 4 + c div 64 < 64" and "c mod 64 < 64"
    and "a mod 4 * 16 < 64" and "b mod 16 * 4 < 64"
  using assms by simp_all

lemma sextets_back:
  fixes a b c :: nat
  assumes "a < 256" and "b < 256" and "c < 256"
  shows "(a div 4 * 4 + (a mod 4 * 16 + b div 16) div 16) mod 256 = a"
    and "((a mod 4 * 16 + b div 16) mod 16 * 16 + (b mod 16 * 4 + c div 64) div 4) mod 256 = b"
    and "((b mod 16 * 4 + c div 64) mod 4 * 64 + c mod 64) mod 256 = c"
    and "(a div 4 * 4 + (a mod 4 * 16) div 16) mod 256 = a"
    and "((a mod 4 * 16 + b div 16) mod 16 * 16 + (b mod 16 * 4) div 4) mod 256 = b"
  using assms by simp_all

lemma decode_sextet:
  "n < 64 \<Longrightarrow>
     List.map_filter unbase64 (takeWhile (\<lambda>c. c \<noteq> CHR ''='') (base64_char n # cs))
       = n # List.map_filter unbase64 (takeWhile (\<lambda>c. c \<noteq> CHR ''='') cs)"
  by (simp add: base64_char_not_pad unbase64_char List.map_filter_simps)

lemma decode_pad:
  "List.map_filter unbase64 (takeWhile (\<lambda>c. c \<noteq> CHR ''='') (CHR ''='' # cs)) = []"
  by (simp add: List.map_filter_simps)

lemma decode_end:
  "List.map_filter unbase64 (takeWhile (\<lambda>c. c \<noteq> CHR ''='') []) = []"
  by (simp add: List.map_filter_simps)

lemma base64_round_trip_nat:
  "list_all (\<lambda>b. b < 256) bs \<Longrightarrow>
     bytes_of_sextets (List.map_filter unbase64 (takeWhile (\<lambda>c. c \<noteq> CHR ''='') (base64_groups bs))) = bs"
proof (induction bs rule: base64_groups.induct)
  case 1
  show ?case by (simp only: base64_groups.simps decode_end bytes_of_sextets.simps)
next
  case (2 a)
  then have a: "a < 256" by simp
  note bd = sextet_bounds [OF a a a]
  show ?case
    by (simp only: base64_groups.simps decode_sextet [OF bd(1)] decode_sextet [OF bd(5)] decode_pad
        bytes_of_sextets.simps sextets_back(4) [OF a a a])
next
  case (3 a b)
  then have a: "a < 256" and b: "b < 256" by simp_all
  note bd = sextet_bounds [OF a b b]
  show ?case
    by (simp only: base64_groups.simps decode_sextet [OF bd(1)] decode_sextet [OF bd(2)]
        decode_sextet [OF bd(6)] decode_pad bytes_of_sextets.simps sextets_back(1,5) [OF a b b])
next
  case (4 a b c r)
  then have a: "a < 256" and b: "b < 256" and c: "c < 256" and r: "list_all (\<lambda>b. b < 256) r" by simp_all
  note bd = sextet_bounds [OF a b c]
  show ?case
    by (simp only: base64_groups.simps append_Cons append_Nil decode_sextet [OF bd(1)] decode_sextet [OF bd(2)]
        decode_sextet [OF bd(3)] decode_sextet [OF bd(4)] bytes_of_sextets.simps
        sextets_back(1,2,3) [OF a b c] "4.IH" [OF r])
qed

lemma unat_byte: "unat (b :: byte) < 256"
  using unsigned_less [of b] by simp

lemma base64_round_trip: "Buffer_from_base64 (Buffer_toString_base64 buf) = buf"
proof -
  have "list_all (\<lambda>b. b < 256) (map unat buf)"
    by (simp add: list_all_iff unat_byte)
  then show ?thesis
    by (simp add: Buffer_from_base64_def Buffer_toString_base64_def base64_round_trip_nat map_idI)
qed

subsection \<open>UTF-8\<close>

lemma decoder_ascii:
  "b \<le> 0x7F \<Longrightarrow> utf8_decoder 0 0 0x80 0xBF (b # bs) = b # utf8_decoder 0 0 0x80 0xBF bs"
  by simp

lemma decoder_lead2:
  "0xC2 \<le> b \<Longrightarrow> b \<le> 0xDF \<Longrightarrow>
     utf8_decoder 0 0 0x80 0xBF (b # bs) = utf8_decoder (b - 0xC0) 1 0x80 0xBF bs"
  by simp

lemma decoder_lead3:
  "0xE0 \<le> b \<Longrightarrow> b \<le> 0xEF \<Longrightarrow>
     utf8_decoder 0 0 0x80 0xBF (b # bs) =
       utf8_decoder (b - 0xE0) 2 (if b = 0xE0 then 0xA0 else 0x80) (if b = 0xED then 0x9F else 0xBF) bs"
  by simp

lemma decoder_lead4:
  "0xF0 \<le> b \<Longrightarrow> b \<le> 0xF4 \<Longrightarrow>
     utf8_decoder 0 0 0x80 0xBF (b # bs) =
       utf8_decoder (b - 0xF0) 3 (if b = 0xF0 then 0x90 else 0x80) (if b = 0xF4 then 0x8F else 0xBF) bs"
  by simp

lemma decoder_last:
  "lower \<le> b \<Longrightarrow> b \<le> upper \<Longrightarrow>
     utf8_decoder cp 1 lower upper (b # bs) = (cp * 64 + (b - 0x80)) # utf8_decoder 0 0 0x80 0xBF bs"
  by simp

lemma decoder_more:
  "lower \<le> b \<Longrightarrow> b \<le> upper \<Longrightarrow> 1 < needed \<Longrightarrow>
     utf8_decoder cp needed lower upper (b # bs) = utf8_decoder (cp * 64 + (b - 0x80)) (needed - 1) 0x80 0xBF bs"
  by simp

lemma div_4096_64: "(cp::nat) div 4096 * 64 + cp div 64 mod 64 = cp div 64"
proof -
  have "cp div 4096 = cp div 64 div 64" by (simp add: div_mult2_eq [symmetric])
  then show ?thesis by simp
qed

lemma div_262144_64: "(cp::nat) div 262144 * 64 + cp div 4096 mod 64 = cp div 4096"
proof -
  have "cp div 262144 = cp div 4096 div 64" by (simp add: div_mult2_eq [symmetric])
  then show ?thesis by simp
qed

lemma mod_64_below_32:
  fixes x :: nat
  assumes "832 \<le> x" and "x < 864"
  shows "x mod 64 < 32"
proof -
  from assms have "x div 64 = 13" by simp
  then have "x mod 64 = x - 832" using div_mult_mod_eq [of x 64] by simp
  with assms show ?thesis by simp
qed

lemma decode_1:
  assumes "cp < 0x80"
  shows "utf8_decode (utf8_bytes cp @ rest) = cp # utf8_decode rest"
proof -
  from assms have "utf8_bytes cp = [cp]" by (simp add: utf8_bytes_def)
  moreover from assms have "cp \<le> 0x7F" by simp
  ultimately show ?thesis
    unfolding utf8_decode_def by (simp only: append_Cons append_Nil decoder_ascii)
qed

lemma decode_2:
  assumes "0x80 \<le> cp" and "cp < 0x800"
  shows "utf8_decode (utf8_bytes cp @ rest) = cp # utf8_decode rest"
proof -
  define b1 where "b1 = 0xC0 + cp div 64"
  define b2 where "b2 = 0x80 + cp mod 64"
  from assms have bytes: "utf8_bytes cp = [b1, b2]" by (simp add: utf8_bytes_def b1_def b2_def)
  from assms have l1: "0xC2 \<le> b1" "b1 \<le> 0xDF" by (simp_all add: b1_def)
  have l2: "0x80 \<le> b2" "b2 \<le> 0xBF" by (simp_all add: b2_def)
  have v: "(b1 - 0xC0) * 64 + (b2 - 0x80) = cp" by (simp add: b1_def b2_def)
  show ?thesis
    unfolding utf8_decode_def bytes
    by (simp only: append_Cons append_Nil decoder_lead2 [OF l1] decoder_last [OF l2] v)
qed

lemma decode_3:
  assumes "0x800 \<le> cp" and "cp < 0x10000" and "\<not> (0xD800 \<le> cp \<and> cp \<le> 0xDFFF)"
  shows "utf8_decode (utf8_bytes cp @ rest) = cp # utf8_decode rest"
proof -
  define b1 where "b1 = 0xE0 + cp div 4096"
  define b2 where "b2 = 0x80 + cp div 64 mod 64"
  define b3 where "b3 = 0x80 + cp mod 64"
  from assms have bytes: "utf8_bytes cp = [b1, b2, b3]" by (simp add: utf8_bytes_def b1_def b2_def b3_def)
  from assms have l1: "0xE0 \<le> b1" "b1 \<le> 0xEF" by (simp_all add: b1_def)
  have lo: "(if b1 = 0xE0 then 0xA0 else 0x80) \<le> b2"
  proof (cases "b1 = 0xE0")
    case True
    then have "cp div 4096 = 0" by (simp add: b1_def)
    then have "cp < 4096" by simp
    with assms(1) have "32 \<le> cp div 64" "cp div 64 < 64" by simp_all
    then show ?thesis using True by (simp add: b2_def)
  next
    case False
    then show ?thesis by (simp add: b2_def)
  qed
  have hi: "b2 \<le> (if b1 = 0xED then 0x9F else 0xBF)"
  proof (cases "b1 = 0xED")
    case True
    then have "cp div 4096 = 13" by (simp add: b1_def)
    then have "53248 \<le> cp" and "cp < 57344" by simp_all
    with assms(3) have "cp < 0xD800" by simp
    with \<open>53248 \<le> cp\<close> have "832 \<le> cp div 64" "cp div 64 < 864" by simp_all
    then have "cp div 64 mod 64 < 32" by (rule mod_64_below_32)
    then show ?thesis using True by (simp add: b2_def)
  next
    case False
    have "cp div 64 mod 64 < 64" by simp
    then show ?thesis using False by (simp add: b2_def)
  qed
  have l3: "0x80 \<le> b3" "b3 \<le> 0xBF" by (simp_all add: b3_def)
  have v: "((b1 - 0xE0) * 64 + (b2 - 0x80)) * 64 + (b3 - 0x80) = cp"
  proof -
    have "cp div 4096 * 64 + cp div 64 mod 64 = cp div 64" by (rule div_4096_64)
    then show ?thesis by (simp add: b1_def b2_def b3_def)
  qed
  have two: "(1::nat) < 2" and one: "(2::nat) - 1 = 1" by simp_all
  show ?thesis
    unfolding utf8_decode_def bytes
    by (simp only: append_Cons append_Nil decoder_lead3 [OF l1] decoder_more [OF lo hi two] one
        decoder_last [OF l3] v)
qed


lemma mod_64_below_16:
  fixes x :: nat
  assumes "256 \<le> x" and "x < 272"
  shows "x mod 64 < 16"
proof -
  from assms have "x div 64 = 4" by simp
  then have "x mod 64 = x - 256" using div_mult_mod_eq [of x 64] by simp
  with assms show ?thesis by simp
qed

lemma decode_4:
  assumes "0x10000 \<le> cp" and "cp < 0x110000"
  shows "utf8_decode (utf8_bytes cp @ rest) = cp # utf8_decode rest"
proof -
  define b1 where "b1 = 0xF0 + cp div 262144"
  define b2 where "b2 = 0x80 + cp div 4096 mod 64"
  define b3 where "b3 = 0x80 + cp div 64 mod 64"
  define b4 where "b4 = 0x80 + cp mod 64"
  from assms have bytes: "utf8_bytes cp = [b1, b2, b3, b4]"
    by (simp add: utf8_bytes_def b1_def b2_def b3_def b4_def)
  from assms have l1: "0xF0 \<le> b1" "b1 \<le> 0xF4" by (simp_all add: b1_def)
  have lo: "(if b1 = 0xF0 then 0x90 else 0x80) \<le> b2"
  proof (cases "b1 = 0xF0")
    case True
    then have "cp div 262144 = 0" by (simp add: b1_def)
    then have "cp < 262144" by simp
    with assms(1) have "16 \<le> cp div 4096" "cp div 4096 < 64" by simp_all
    then show ?thesis using True by (simp add: b2_def)
  next
    case False
    then show ?thesis by (simp add: b2_def)
  qed
  have hi: "b2 \<le> (if b1 = 0xF4 then 0x8F else 0xBF)"
  proof (cases "b1 = 0xF4")
    case True
    then have "cp div 262144 = 4" by (simp add: b1_def)
    then have "1048576 \<le> cp" by simp
    with assms(2) have "256 \<le> cp div 4096" "cp div 4096 < 272" by simp_all
    then have "cp div 4096 mod 64 < 16" by (rule mod_64_below_16)
    then show ?thesis using True by (simp add: b2_def)
  next
    case False
    have "cp div 4096 mod 64 < 64" by simp
    then show ?thesis using False by (simp add: b2_def)
  qed
  have l3: "0x80 \<le> b3" "b3 \<le> 0xBF" by (simp_all add: b3_def)
  have l4: "0x80 \<le> b4" "b4 \<le> 0xBF" by (simp_all add: b4_def)
  have v: "(((b1 - 0xF0) * 64 + (b2 - 0x80)) * 64 + (b3 - 0x80)) * 64 + (b4 - 0x80) = cp"
  proof -
    have "(b1 - 0xF0) * 64 + (b2 - 0x80) = cp div 4096"
      using div_262144_64 [of cp] by (simp add: b1_def b2_def)
    moreover have "cp div 4096 * 64 + (b3 - 0x80) = cp div 64"
      using div_4096_64 [of cp] by (simp add: b3_def)
    moreover have "cp div 64 * 64 + (b4 - 0x80) = cp" by (simp add: b4_def)
    ultimately show ?thesis by simp
  qed
  have three: "(1::nat) < 3" and two: "(1::nat) < 2" and d3: "(3::nat) - 1 = 2" and d2: "(2::nat) - 1 = 1"
    by simp_all
  show ?thesis
    unfolding utf8_decode_def bytes
    by (simp only: append_Cons append_Nil decoder_lead4 [OF l1] decoder_more [OF lo hi three] d3
        decoder_more [OF l3 two] d2 decoder_last [OF l4] v)
qed

lemma decode_scalar:
  assumes "cp < 0x110000" and "\<not> is_high_surrogate cp" and "\<not> is_low_surrogate cp"
  shows "utf8_decode (utf8_bytes cp @ rest) = cp # utf8_decode rest"
proof -
  from assms(2,3) have ns: "\<not> (0xD800 \<le> cp \<and> cp \<le> 0xDFFF)"
    by (auto simp: is_high_surrogate_def is_low_surrogate_def)
  consider "cp < 0x80" | "0x80 \<le> cp" "cp < 0x800" | "0x800 \<le> cp" "cp < 0x10000" | "0x10000 \<le> cp"
    by linarith
  then show ?thesis
  proof cases
    case 1 then show ?thesis by (rule decode_1)
  next
    case 2 then show ?thesis by (rule decode_2)
  next
    case 3 then show ?thesis using ns by (intro decode_3)
  next
    case 4 then show ?thesis using assms(1) by (intro decode_4)
  qed
qed

lemma utf8_bytes_small:
  assumes "cp < 0x110000"
  shows "list_all (\<lambda>b. b < 256) (utf8_bytes cp)"
proof -
  have m: "cp mod 64 < 128" "cp div 64 mod 64 < 128" "cp div 4096 mod 64 < 128"
    using mod_less_divisor [of 64 cp] mod_less_divisor [of 64 "cp div 64"] mod_less_divisor [of 64 "cp div 4096"]
    by linarith+
  have d: "cp < 0x800 \<Longrightarrow> cp div 64 < 64" "cp < 0x10000 \<Longrightarrow> cp div 4096 < 32"
    by simp_all
  from assms have d4: "cp div 262144 < 16" by simp
  show ?thesis
    using m d d4 by (simp add: utf8_bytes_def)
qed

lemma pair_code_point:
  assumes "is_high_surrogate u" and "is_low_surrogate l"
  shows "0x10000 \<le> 0x10000 + (u - 0xD800) * 1024 + (l - 0xDC00)"
    and "0x10000 + (u - 0xD800) * 1024 + (l - 0xDC00) < 0x110000"
    and "utf16_units (0x10000 + (u - 0xD800) * 1024 + (l - 0xDC00)) = [u, l]"
proof -
  define a where "a = u - 0xD800"
  define b where "b = l - 0xDC00"
  from assms(1) have a: "a < 1024" and u: "u = 0xD800 + a"
    unfolding a_def is_high_surrogate_def by linarith+
  from assms(2) have b: "b < 1024" and l: "l = 0xDC00 + b"
    unfolding b_def is_low_surrogate_def by linarith+
  show "0x10000 \<le> 0x10000 + (u - 0xD800) * 1024 + (l - 0xDC00)" by simp
  from a have "a * 1024 \<le> 1023 * 1024" by simp
  with b show "0x10000 + (u - 0xD800) * 1024 + (l - 0xDC00) < 0x110000"
    by (simp add: a_def [symmetric] b_def [symmetric])
  have "(a * 1024 + b) div 1024 = a" "(a * 1024 + b) mod 1024 = b"
    using b by simp_all
  then show "utf16_units (0x10000 + (u - 0xD800) * 1024 + (l - 0xDC00)) = [u, l]"
    by (simp add: utf16_units_def a_def [symmetric] b_def [symmetric] u l)
qed

lemma utf8_encode_small:
  "list_all (\<lambda>u. u < 65536) us \<Longrightarrow> list_all (\<lambda>b. b < 256) (utf8_encode us)"
proof (induction us rule: utf8_encode.induct)
  case 1
  then show ?case by simp
next
  case (2 u)
  then show ?case by (simp add: utf8_bytes_small)
next
  case (3 u l us)
  from "3.prems" have u: "u < 65536" and rest: "list_all (\<lambda>u. u < 65536) (l # us)"
    and rest': "list_all (\<lambda>u. u < 65536) us" by simp_all
  show ?case
  proof (cases "is_high_surrogate u \<and> is_low_surrogate l")
    case True
    have enc: "utf8_encode (u # l # us)
                 = utf8_bytes (0x10000 + (u - 0xD800) * 1024 + (l - 0xDC00)) @ utf8_encode us"
      using True by simp
    from True have "list_all (\<lambda>b. b < 256) (utf8_bytes (0x10000 + (u - 0xD800) * 1024 + (l - 0xDC00)))"
      by (intro utf8_bytes_small pair_code_point(2)) simp_all
    with "3.IH"(1) [OF True rest'] show ?thesis
      unfolding enc by simp
  next
    case np: False
    show ?thesis
    proof (cases "is_high_surrogate u \<or> is_low_surrogate u")
      case True
      have enc: "utf8_encode (u # l # us) = utf8_bytes 0xFFFD @ utf8_encode (l # us)"
        by (simp only: utf8_encode.simps np True if_False if_True simp_thms)
      have "list_all (\<lambda>b. b < 256) (utf8_bytes 0xFFFD)" by (rule utf8_bytes_small) simp
      with "3.IH"(2) [OF np True rest] show ?thesis
        unfolding enc by simp
    next
      case nosur: False
      have enc: "utf8_encode (u # l # us) = utf8_bytes u @ utf8_encode (l # us)"
        by (simp only: utf8_encode.simps np nosur if_False simp_thms)
      from u have "list_all (\<lambda>b. b < 256) (utf8_bytes u)" by (intro utf8_bytes_small) simp
      with "3.IH"(3) [OF np nosur rest] show ?thesis
        unfolding enc by simp
    qed
  qed
qed

lemma utf16_units_bmp: "cp < 0x10000 \<Longrightarrow> utf16_units cp = [cp]"
  by (simp add: utf16_units_def)

lemma utf8_round_trip_nat:
  "list_all (\<lambda>u. u < 65536) us \<Longrightarrow> paired_surrogates us \<Longrightarrow>
     concat (map utf16_units (utf8_decode (utf8_encode us))) = us"
proof (induction us rule: utf8_encode.induct)
  case 1
  then show ?case by (simp add: utf8_decode_def)
next
  case (2 u)
  then have u: "u < 65536" and ns: "\<not> is_high_surrogate u" "\<not> is_low_surrogate u" by simp_all
  from u have "u < 0x110000" by simp
  from decode_scalar [OF this ns, of "[]"] ns u show ?case
    by (simp add: utf16_units_bmp utf8_decode_def)
next
  case (3 u l us)
  from "3.prems" have u: "u < 65536" and rest: "list_all (\<lambda>u. u < 65536) (l # us)"
    and rest': "list_all (\<lambda>u. u < 65536) us" by simp_all
  show ?case
  proof (cases "is_high_surrogate u \<and> is_low_surrogate l")
    case True
    then have h: "is_high_surrogate u" and lw: "is_low_surrogate l" by simp_all
    let ?cp = "0x10000 + (u - 0xD800) * 1024 + (l - 0xDC00)"
    note pc = pair_code_point [OF h lw]
    have ns: "\<not> is_high_surrogate ?cp" "\<not> is_low_surrogate ?cp"
      using pc(1) by (simp_all add: is_high_surrogate_def is_low_surrogate_def)
    from "3.prems"(2) have wf: "paired_surrogates us"
      using True by simp
    have enc: "utf8_encode (u # l # us) = utf8_bytes ?cp @ utf8_encode us"
      using True by simp
    show ?thesis
      unfolding enc decode_scalar [OF pc(2) ns]
      using pc(3) "3.IH"(1) [OF True rest' wf] by simp
  next
    case np: False
    from "3.prems"(2) have "\<not> is_high_surrogate u \<and> \<not> is_low_surrogate u \<and> paired_surrogates (l # us)"
      by (simp only: paired_surrogates.simps np if_False simp_thms)
    then have ns: "\<not> is_high_surrogate u" "\<not> is_low_surrogate u"
      and wf: "paired_surrogates (l # us)" by simp_all
    from ns have nosur: "\<not> (is_high_surrogate u \<or> is_low_surrogate u)" by simp
    have enc: "utf8_encode (u # l # us) = utf8_bytes u @ utf8_encode (l # us)"
      by (simp only: utf8_encode.simps np nosur if_False simp_thms)
    from u have big: "u < 0x110000" by simp
    show ?thesis
      unfolding enc decode_scalar [OF big ns]
      using u "3.IH"(3) [OF np nosur rest wf] by (simp add: utf16_units_bmp)
  qed
qed

lemma unat_unit: "unat (u :: 16 word) < 65536"
  using unsigned_less [of u] by simp

lemma utf8_round_trip:
  assumes "well_formed s"
  shows "Buffer_toString_utf8 (Buffer_from_utf8 s) = s"
proof -
  have units: "list_all (\<lambda>u. u < 65536) (map unat s)"
    by (simp add: list_all_iff unat_unit)
  then have "list_all (\<lambda>b. b < 256) (utf8_encode (map unat s))" by (rule utf8_encode_small)
  then have bytes: "map unat (map of_nat (utf8_encode (map unat s)) :: byte list) = utf8_encode (map unat s)"
    by (simp add: list_all_iff unat_of_nat map_idI)
  from assms have "paired_surrogates (map unat s)" by (simp add: well_formed_def)
  with units have "concat (map utf16_units (utf8_decode (utf8_encode (map unat s)))) = map unat s"
    by (rule utf8_round_trip_nat)
  with bytes show ?thesis
    by (simp add: Buffer_toString_utf8_def Buffer_from_utf8_def map_idI)
qed

subsection \<open>Saving and loading\<close>

lemma deobfuscate_obfuscate:
  "simpleDeobfuscate (simpleObfuscate data password) password = Buffer_toString_utf8 (Buffer_from_utf8 data)"
  by (simp add: simpleDeobfuscate_def simpleObfuscate_def base64_round_trip xor_key_twice)

lemma chmodSync_Inr: "chmodSync p m w = Inr w' \<Longrightarrow> w' = w\<lparr>modes := AList.update p m (modes w)\<rparr>"
  by (auto simp: chmodSync_def split: if_splits)

lemma load_after_save:
  assumes "saveMnemonic mnemonic password w = (Inr (), w')"
  shows "loadMnemonic password w' = Some (Buffer_toString_utf8 (Buffer_from_utf8 mnemonic))"
proof -
  let ?P = "getWalletEncPath w"
  let ?enc = "simpleObfuscate mnemonic password"
  from assms obtain w1 w2 w3 where
    mk: "mkdirSync (path_dirname ?P) w = Inr w1" and
    wr: "writeFileSync ?P ?enc w1 = Inr w2" and
    ch: "chmodSync ?P 384 w2 = Inr w3" and
    lg: "log Info ''Mnemonic saved to encrypted store'' [] w3 = (Inr (), w')"
    by (auto simp: saveMnemonic_def Let_def split: sum.splits)
  from chmodSync_Inr [OF ch] have w3: "files w3 = files w2" "homedir w3 = homedir w2" by simp_all
  have home: "homedir w' = homedir w"
    using log_homedir [of Info "''Mnemonic saved to encrypted store''" "[]" w3] lg w3(2)
      mkdirSync_homedir [OF mk] writeFileSync_homedir [OF wr] by simp
  have "path_basename ?P \<noteq> ''app.log''"
    by (simp add: getWalletEncPath_def basename_wallet_enc)
  then have "map_of (files w') ?P = map_of (files w3) ?P"
    using log_files_other [of ?P Info "''Mnemonic saved to encrypted store''" "[]" w3] lg by simp
  with writeFileSync_read [OF wr] w3(1) have rd: "map_of (files w') ?P = Some ?enc" by simp
  then have ex: "existsSync ?P w'"
    by (auto simp: existsSync_def dest: map_of_SomeD key_of_entry)
  from rd have "readFileSync ?P w' = Inr ?enc" by (simp add: readFileSync_def)
  with ex home show ?thesis
    by (simp add: loadMnemonic_def getWalletEncPath_def getMarsCreditDir_def Let_def deobfuscate_obfuscate)
qed

text \<open>
  Claim C9, as the code has it. For every mnemonic that is well-formed text (each surrogate
  code unit is one half of a pair) and every password, empty or not, \<open>loadMnemonic\<close>
  after a \<open>saveMnemonic\<close> that returned gives the mnemonic back: the key applied twice
  is the identity on the bytes, Base64 is decoded to the bytes it encoded, and UTF-8 gives
  well-formed text back as it was.
\<close>

theorem mnemonic_round_trip:
  assumes "well_formed mnemonic" and "saveMnemonic mnemonic password w = (Inr (), w')"
  shows "loadMnemonic password w' = Some mnemonic"
  using load_after_save [OF assms(2)] utf8_round_trip [OF assms(1)] by simp

lemmas save_defs = saveMnemonic_def getWalletEncPath_def fs_defs Let_def

lemma sample_save:
  "fst (saveMnemonic [0x61, 0x62, 0x20, 0xE9, 0xD83D, 0xDE00] [0x70, 0x77] sample_host) = Inr ()"
  by (simp add: save_defs sample_host_def)

lemma sample_well_formed: "well_formed [0x61, 0x62, 0x20, 0xE9, 0xD83D, 0xDE00]"
  by (simp add: well_formed_def is_high_surrogate_def is_low_surrogate_def)

theorem mnemonic_round_trip_witness:
  "well_formed [0x61, 0x62, 0x20, 0xE9, 0xD83D, 0xDE00]
   \<and> fst (saveMnemonic [0x61, 0x62, 0x20, 0xE9, 0xD83D, 0xDE00] [0x70, 0x77] sample_host) = Inr ()
   \<and> loadMnemonic [0x70, 0x77]
        (snd (saveMnemonic [0x61, 0x62, 0x20, 0xE9, 0xD83D, 0xDE00] [0x70, 0x77] sample_host))
       = Some [0x61, 0x62, 0x20, 0xE9, 0xD83D, 0xDE00]"
proof -
  let ?m = "[0x61, 0x62, 0x20, 0xE9, 0xD83D, 0xDE00] :: jsstring"
  let ?p = "[0x70, 0x77] :: jsstring"
  have run: "saveMnemonic ?m ?p sample_host = (Inr (), snd (saveMnemonic ?m ?p sample_host))"
    using sample_save by (metis prod.collapse)
  from mnemonic_round_trip [OF sample_well_formed run] sample_well_formed sample_save
  show ?thesis by blast
qed

text \<open>
  The claim as stated (every string) fails for a string with a surrogate that has no partner:
  \<^verbatim>\<open>Buffer.from\<close> encodes it as U+FFFD, and that is what comes back.
\<close>

lemma lone_surrogate_codec: "Buffer_toString_utf8 (Buffer_from_utf8 [0xD800]) = [0xFFFD]"
  by (simp add: Buffer_toString_utf8_def Buffer_from_utf8_def is_high_surrogate_def utf8_bytes_def
      utf8_decode_def utf16_units_def)

lemma lone_surrogate_save: "fst (saveMnemonic [0xD800] [0x70, 0x77] sample_host) = Inr ()"
  by (simp add: save_defs sample_host_def)

theorem mnemonic_lone_surrogate:
  "[0x70, 0x77 :: 16 word] \<noteq> []
   \<and> fst (saveMnemonic [0xD800] [0x70, 0x77] sample_host) = Inr ()
   \<and> loadMnemonic [0x70, 0x77] (snd (saveMnemonic [0xD800] [0x70, 0x77] sample_host)) = Some [0xFFFD]
   \<and> loadMnemonic [0x70, 0x77] (snd (saveMnemonic [0xD800] [0x70, 0x77] sample_host)) \<noteq> Some [0xD800]"
proof -
  have run: "saveMnemonic [0xD800] [0x70, 0x77] sample_host
               = (Inr (), snd (saveMnemonic [0xD800] [0x70, 0x77] sample_host))"
    using lone_surrogate_save by (metis prod.collapse)
  from load_after_save [OF run] lone_surrogate_codec lone_surrogate_save show ?thesis by simp
qed

end
